theory Spec2Isabelle
  imports Main
begin

section \<open>The stage executor\<close>

text \<open>
  Every handler of \<^verbatim>\<open>src/handler.js\<close> hands a list of steps to
  \<^verbatim>\<open>async.waterfall(tasks, callback)\<close>. A step is a JavaScript function that receives
  the arguments of the previous step's callback, performs calls on external services and
  ends in one of four ways. What a handler does is recorded as a trace of events, in the
  order in which they happen.
\<close>

datatype ('e, 'v) outcome =
    Next_ok "'v list"   \<comment> \<open>\<^verbatim>\<open>next(null, ...args)\<close>\<close>
  | Next_err 'e         \<comment> \<open>\<^verbatim>\<open>next(err)\<close> with an error value (a truthy one)\<close>
  | Throws 'e           \<comment> \<open>\<^verbatim>\<open>throw e\<close> before \<^verbatim>\<open>next\<close> was called\<close>
  | No_callback         \<comment> \<open>the step returns and \<^verbatim>\<open>next\<close> is never called\<close>

type_synonym ('e, 'v, 'a) task = "'v list \<Rightarrow> 'a list \<times> ('e, 'v) outcome"

datatype ('e, 'a) event =
    Step_invoked nat            \<comment> \<open>the executor calls step number \<open>i\<close>\<close>
  | Action 'a                   \<comment> \<open>a call on an external collaborator\<close>
  | Step_fired nat "'e option"  \<comment> \<open>the completion callback of step \<open>i\<close> fires\<close>
  | Step_threw nat 'e           \<comment> \<open>step \<open>i\<close> raises\<close>
  | Chain_callback "'e option"  \<comment> \<open>the chain's final callback fires\<close>

datatype ('e, 'v) chain_result =
    Completed "'v list"
  | Aborted 'e
  | Uncaught 'e
  | Pending

text \<open>
  Modelled from the spec: \<^verbatim>\<open>async.waterfall\<close> belongs to the npm package \<^verbatim>\<open>async\<close>,
  which \<^verbatim>\<open>src/handler.js\<close> requires in line 4 and which is not part of the sources.
  The definition follows section 4.1: the steps run strictly in order, each one on the
  result of its predecessor and only once the predecessor's callback has fired; the
  first error stops the chain and goes to the final callback; after the last step the
  final callback receives the last result. Whether the executor turns a step that raises
  into an error for the final callback is the parameter \<open>catches\<close>: section 4.1 asks for
  it (\<open>catches = True\<close>); \<^verbatim>\<open>async.waterfall\<close> calls a step with no handler around the
  call, so that the exception leaves the executor (\<open>catches = False\<close>). A handler that
  passes no final callback (\<^verbatim>\<open>callback || noop\<close>) is the case \<open>None\<close>.
\<close>

fun run_tasks ::
  "bool \<Rightarrow> nat \<Rightarrow> ('e, 'v, 'a) task list \<Rightarrow> 'v list \<Rightarrow> ('e, 'a) event list \<times> ('e, 'v) chain_result"
where
  "run_tasks catches i [] args = ([], Completed args)"
| "run_tasks catches i (t # ts) args =
     (case t args of
        (acts, Next_ok args') \<Rightarrow>
          (case run_tasks catches (Suc i) ts args' of
             (tr, r) \<Rightarrow> (Step_invoked i # map Action acts @ Step_fired i None # tr, r))
      | (acts, Next_err e) \<Rightarrow>
          (Step_invoked i # map Action acts @ [Step_fired i (Some e)], Aborted e)
      | (acts, Throws e) \<Rightarrow>
          (Step_invoked i # map Action acts @ [Step_threw i e],
           if catches then Aborted e else Uncaught e)
      | (acts, No_callback) \<Rightarrow>
          (Step_invoked i # map Action acts, Pending))"

definition noop :: "'e option \<Rightarrow> 'v list \<Rightarrow> 'a list" where
  "noop err args = []"

definition callback_or_noop ::
  "('e option \<Rightarrow> 'v list \<Rightarrow> 'a list) option \<Rightarrow> 'e option \<Rightarrow> 'v list \<Rightarrow> 'a list"
where
  "callback_or_noop callback = (case callback of Some f \<Rightarrow> f | None \<Rightarrow> noop)"

definition waterfall ::
  "bool \<Rightarrow> ('e, 'v, 'a) task list \<Rightarrow> ('e option \<Rightarrow> 'v list \<Rightarrow> 'a list) option
     \<Rightarrow> ('e, 'a) event list"
where
  "waterfall catches tasks callback =
     (case run_tasks catches 0 tasks [] of
        (tr, Completed args) \<Rightarrow>
          tr @ Chain_callback None # map Action (callback_or_noop callback None args)
      | (tr, Aborted e) \<Rightarrow>
          tr @ Chain_callback (Some e) # map Action (callback_or_noop callback (Some e) [])
      | (tr, Uncaught e) \<Rightarrow> tr
      | (tr, Pending) \<Rightarrow> tr)"

section \<open>Data of the handlers\<close>

text \<open>
  Error payloads are of three kinds: the error object an external call hands to its
  callback, a bare string raised with \<^verbatim>\<open>throw\<close> (line 38), and the
  \<^verbatim>\<open>TypeError\<close> the engine raises when a property of \<^verbatim>\<open>undefined\<close> is read.
\<close>

datatype payload =
    Service_error string
  | Thrown_string string
  | Type_error

record state_machine =
  name :: string
  stateMachineArn :: string

text \<open>One entry of \<^verbatim>\<open>event.Records\<close>: \<^verbatim>\<open>s3.bucket.name\<close> and \<^verbatim>\<open>s3.object.key\<close>.\<close>

record s3_record =
  s3_bucket_name :: string
  s3_object_key :: string

datatype trigger_event =
    Records_event "s3_record list"   \<comment> \<open>\<^verbatim>\<open>'Records' in event\<close>\<close>
  | Other_event

record file_event =
  bucketName :: string
  objectKey :: string

record relocation_result = file_event +
  newLocation :: string

text \<open>
  A table-store attribute: \<^verbatim>\<open>{'S': x}\<close> or \<^verbatim>\<open>{'N': x}\<close>, where \<open>x\<close> is a field of the
  decoded row and is \<^verbatim>\<open>undefined\<close> (\<open>None\<close>) when the row is too short. An item keeps the
  attribute names of the source.
\<close>

datatype attribute_value = S "string option" | N "string option"

type_synonym item = "(string \<times> attribute_value) list"

record email =
  ToAddresses :: "string list"
  Body_Text_Data :: string
  Subject_Data :: string
  Source :: string

text \<open>The values steps pass on: the workflow listing, a resolved ARN, any other response.\<close>

datatype js_value =
    Listing "state_machine list"
  | Arn string
  | Response

text \<open>The argument of \<^verbatim>\<open>context.succeed\<close>.\<close>

datatype signal_value =
    Str string
  | File file_event
  | Relocation relocation_result

text \<open>
  The calls a handler makes, each with the parameters the source passes. Writes to the
  console are not part of the trace.
\<close>

datatype action =
    ListStateMachines
  | StartExecution string string            \<comment> \<open>\<^verbatim>\<open>stateMachineArn\<close>, \<^verbatim>\<open>input\<close>\<close>
  | WaitFor_objectExists string string      \<comment> \<open>\<^verbatim>\<open>Bucket\<close>, \<^verbatim>\<open>Key\<close>\<close>
  | GetObject_createReadStream string string
  | Csv_fromStream_on_data string string    \<comment> \<open>the \<^verbatim>\<open>'data'\<close> listener on that object's stream\<close>
  | PutItem item string                     \<comment> \<open>\<^verbatim>\<open>Item\<close>, \<^verbatim>\<open>TableName\<close>; the call, made with no callback\<close>
  | CopyObject string string string         \<comment> \<open>\<^verbatim>\<open>Bucket\<close>, \<^verbatim>\<open>Key\<close>, \<^verbatim>\<open>CopySource\<close>\<close>
  | DeleteObject string string
  | SendEmail email
  | Context_succeed signal_value
  | Context_fail "string option"

text \<open>
  The external collaborators, as what each call answers: an error for the callback
  (\<open>Some err\<close>, \<open>Inl err\<close>) or success. \<open>getObject\<close> is the text the object's read
  stream delivers. \<open>putItem\<close> is the answer of the table store to a write.
\<close>

record services =
  listStateMachines :: "payload + state_machine list"
  startExecution :: "string \<Rightarrow> string \<Rightarrow> payload option"
  waitFor_objectExists :: "string \<Rightarrow> string \<Rightarrow> payload option"
  getObject :: "string \<Rightarrow> string \<Rightarrow> string"
  putItem :: "item \<Rightarrow> string \<Rightarrow> payload option"
  copyObject :: "string \<Rightarrow> string \<Rightarrow> string \<Rightarrow> payload option"
  deleteObject :: "string \<Rightarrow> string \<Rightarrow> payload option"
  ses_sendEmail :: "email \<Rightarrow> payload option"

text \<open>
  The process-wide configuration \<^verbatim>\<open>process.env\<close>, with the three variables the
  handlers read set to strings.
\<close>

record config =
  STEP_FUNCTION_NAME :: string
  TARGET_BUCKET :: string
  DEST_EMAIL :: string

type_synonym trace = "(payload, action) event list"

text \<open>An external call given \<^verbatim>\<open>next\<close> as its callback calls it with \<^verbatim>\<open>(err, data)\<close>.\<close>

definition sdk_callback :: "payload option \<Rightarrow> (payload, js_value) outcome" where
  "sdk_callback res = (case res of Some err \<Rightarrow> Next_err err | None \<Rightarrow> Next_ok [Response])"

section \<open>Built-in functions of the language\<close>

text \<open>
  \<^verbatim>\<open>JSON.stringify\<close> on a string (ECMAScript \<^verbatim>\<open>QuoteJSONString\<close>): the quotation mark,
  the backslash and the control characters are escaped, every other character stands for
  itself. A string is its sequence of bytes.
\<close>

definition hex_lower :: "nat \<Rightarrow> char" where
  "hex_lower n = ''0123456789abcdef'' ! (n mod 16)"

definition json_escape :: "char \<Rightarrow> string" where
  "json_escape c =
     (if c = CHR 0x22 then [CHR 0x5C, CHR 0x22]
      else if c = CHR 0x5C then [CHR 0x5C, CHR 0x5C]
      else if c = CHR 0x08 then [CHR 0x5C, CHR ''b'']
      else if c = CHR 0x0C then [CHR 0x5C, CHR ''f'']
      else if c = CHR 0x0A then [CHR 0x5C, CHR ''n'']
      else if c = CHR 0x0D then [CHR 0x5C, CHR ''r'']
      else if c = CHR 0x09 then [CHR 0x5C, CHR ''t'']
      else if (of_char c :: nat) < 32 then
        [CHR 0x5C, CHR ''u'', CHR ''0'', CHR ''0'',
         hex_lower (of_char c div 16), hex_lower (of_char c mod 16)]
      else [c])"

definition json_string :: "string \<Rightarrow> string" where
  "json_string s = CHR 0x22 # concat (map json_escape s) @ [CHR 0x22]"

text \<open>\<^verbatim>\<open>JSON.stringify({ objectKey: key, bucketName: bucket })\<close> of lines 45.\<close>

definition JSON_stringify_input :: "string \<Rightarrow> string \<Rightarrow> string" where
  "JSON_stringify_input key bucket =
     ''{'' @ json_string ''objectKey'' @ '':'' @ json_string key @ '','' @
     json_string ''bucketName'' @ '':'' @ json_string bucket @ ''}''"

text \<open>
  \<^verbatim>\<open>encodeURIComponent\<close>: letters, digits and \<^verbatim>\<open>- _ . ! ~ * ' ( )\<close> stand for themselves,
  every other byte becomes \<^verbatim>\<open>%XX\<close>.
\<close>

definition hex_upper :: "nat \<Rightarrow> char" where
  "hex_upper n = ''0123456789ABCDEF'' ! (n mod 16)"

definition uri_unreserved :: "char \<Rightarrow> bool" where
  "uri_unreserved c =
     (c \<in> set (CHR 0x27 #
        ''ABCDEFGHIJKLMNOPQRSTUVWXYZabcdefghijklmnopqrstuvwxyz0123456789-_.!~*()''))"

definition encodeURIComponent :: "string \<Rightarrow> string" where
  "encodeURIComponent s =
     concat (map (\<lambda>c. if uri_unreserved c then [c]
                      else [CHR ''%'', hex_upper (of_char c div 16), hex_upper (of_char c mod 16)]) s)"

text \<open>\<^verbatim>\<open>data[n]\<close> on an array: \<^verbatim>\<open>undefined\<close> beyond its end.\<close>

fun nth_opt :: "'a list \<Rightarrow> nat \<Rightarrow> 'a option" where
  "nth_opt [] n = None"
| "nth_opt (x # xs) 0 = Some x"
| "nth_opt (x # xs) (Suc n) = nth_opt xs n"

text \<open>
  Modelled from the spec: the row decoder \<^verbatim>\<open>csv.fromStream\<close> belongs to the npm package
  \<^verbatim>\<open>fast-csv\<close>, which is not part of the sources. Section 3 has a row decoded from one
  line of the delimited stream, its fields in order; section 8 has the stream
  \<^verbatim>\<open>"s1,100,3.5\ns2,200,4.1\n"\<close> decode into two rows. So every non-empty line is one row,
  and a line is cut at its commas. The handlers take the decoder as a parameter.
\<close>

fun split_on :: "char \<Rightarrow> string \<Rightarrow> string list" where
  "split_on d [] = [[]]"
| "split_on d (c # cs) =
     (if c = d then [] # split_on d cs
      else (case split_on d cs of w # ws \<Rightarrow> (c # w) # ws | [] \<Rightarrow> [[c]]))"

definition csv_rows :: "string \<Rightarrow> string list list" where
  "csv_rows s = map (split_on CHR '','') (filter (\<lambda>line. line \<noteq> []) (split_on (CHR 0x0A) s))"

section \<open>executeWorkflow (lines 16 to 55)\<close>

text \<open>The loop of lines 30 to 38 over \<^verbatim>\<open>data.stateMachines\<close>.\<close>

fun resolveWorkflow :: "string \<Rightarrow> state_machine list \<Rightarrow> (payload, js_value) outcome" where
  "resolveWorkflow stateMachineName [] =
     Throws (Thrown_string ''Step function with the given name doesn't exist'')"
| "resolveWorkflow stateMachineName (item # rest) =
     (if name item = stateMachineName then Next_ok [Arn (stateMachineArn item)]
      else resolveWorkflow stateMachineName rest)"

text \<open>
  The four steps of lines 22 to 50. The second step receives the listing and the third
  the ARN; arguments of another shape do not reach them, and are given a
  \<^verbatim>\<open>TypeError\<close> here. \<^verbatim>\<open>event.Records[0]\<close> of an empty \<^verbatim>\<open>Records\<close> is
  \<^verbatim>\<open>undefined\<close>, and reading its \<^verbatim>\<open>s3\<close> raises.
\<close>

definition listWorkflows_step :: "services \<Rightarrow> (payload, js_value, action) task" where
  "listWorkflows_step env args =
     ([ListStateMachines],
      case listStateMachines env of Inl err \<Rightarrow> Next_err err | Inr ms \<Rightarrow> Next_ok [Listing ms])"

definition resolveWorkflow_step :: "config \<Rightarrow> (payload, js_value, action) task" where
  "resolveWorkflow_step cfg args =
     (case args of
        Listing ms # _ \<Rightarrow> ([], resolveWorkflow (STEP_FUNCTION_NAME cfg) ms)
      | _ \<Rightarrow> ([], Throws Type_error))"

definition startWorkflow_step ::
  "services \<Rightarrow> s3_record list \<Rightarrow> (payload, js_value, action) task"
where
  "startWorkflow_step env records args =
     (case args of
        Arn arn # _ \<Rightarrow>
          (case records of
             [] \<Rightarrow> ([], Throws Type_error)
           | eventData # _ \<Rightarrow>
               (let input = JSON_stringify_input (s3_object_key eventData) (s3_bucket_name eventData)
                in ([StartExecution arn input], sdk_callback (startExecution env arn input))))
      | _ \<Rightarrow> ([], Throws Type_error))"

definition succeed_step :: "(payload, js_value, action) task" where
  "succeed_step args = ([Context_succeed (Str ''OK'')], No_callback)"

definition executeWorkflow :: "bool \<Rightarrow> config \<Rightarrow> services \<Rightarrow> trigger_event \<Rightarrow> trace" where
  \<open>executeWorkflow catches cfg env event =
     (case event of
        Records_event records \<Rightarrow>
          waterfall catches
            [listWorkflows_step env, resolveWorkflow_step cfg,
             startWorkflow_step env records, succeed_step]
            None
      | Other_event \<Rightarrow>
          [Action (Context_fail
             (Some ''Incoming message doesn't contain "Records", it will be ignored''))])\<close>

section \<open>processFile (lines 68 to 120)\<close>

text \<open>The listener of lines 92 to 107: one \<^verbatim>\<open>putItem\<close> call for the row \<open>data\<close>.\<close>

definition on_data :: "string list \<Rightarrow> action" where
  "on_data data =
     PutItem
       [(''sensor_id'', S (nth_opt data 0)),
        (''timestamp'', N (nth_opt data 1)),
        (''value'', N (nth_opt data 2))]
       ''sensor_data''"

definition waitForUpload_step :: "services \<Rightarrow> file_event \<Rightarrow> (payload, js_value, action) task" where
  "waitForUpload_step env event args =
     ([WaitFor_objectExists (bucketName event) (objectKey event)],
      sdk_callback (waitFor_objectExists env (bucketName event) (objectKey event)))"

text \<open>
  Lines 83 to 110: the stream is opened, the listener is registered, and
  \<^verbatim>\<open>next(null)\<close> is called before the step returns.
\<close>

definition ingest_step :: "file_event \<Rightarrow> (payload, js_value, action) task" where
  "ingest_step event args =
     ([GetObject_createReadStream (bucketName event) (objectKey event),
       Csv_fromStream_on_data (bucketName event) (objectKey event)],
      Next_ok [])"

definition processFile_callback :: "file_event \<Rightarrow> payload option \<Rightarrow> js_value list \<Rightarrow> action list" where
  "processFile_callback event err results =
     (case err of
        Some e \<Rightarrow> [Context_fail (Some ''Execution failed'')]
      | None \<Rightarrow> [Context_succeed (File event)])"

text \<open>
  The rows arrive once the step that registered the listener has returned, and with it
  the final callback that \<^verbatim>\<open>next(null)\<close> reached: every registered listener is then
  called on each decoded row of its stream, in order.
\<close>

definition data_events :: "(string \<Rightarrow> string list list) \<Rightarrow> services \<Rightarrow> trace \<Rightarrow> trace" where
  "data_events decode env tr =
     concat (map (\<lambda>ev. case ev of
                     Action (Csv_fromStream_on_data b k) \<Rightarrow>
                       map (\<lambda>data. Action (on_data data)) (decode (getObject env b k))
                   | _ \<Rightarrow> []) tr)"

definition processFile ::
  "bool \<Rightarrow> (string \<Rightarrow> string list list) \<Rightarrow> services \<Rightarrow> file_event \<Rightarrow> trace"
where
  "processFile catches decode env event =
     (let tr = waterfall catches
                 [waitForUpload_step env event, ingest_step event]
                 (Some (processFile_callback event))
      in tr @ data_events decode env tr)"

section \<open>moveFile (lines 133 to 173)\<close>

definition processed_location :: "file_event \<Rightarrow> string" where
  "processed_location event = ''processed/'' @ objectKey event"

definition copy_step :: "config \<Rightarrow> services \<Rightarrow> file_event \<Rightarrow> (payload, js_value, action) task" where
  "copy_step cfg env event args =
     (let CopySource = bucketName event @ ''/'' @ encodeURIComponent (objectKey event)
      in ([CopyObject (TARGET_BUCKET cfg) (processed_location event) CopySource],
          sdk_callback (copyObject env (TARGET_BUCKET cfg) (processed_location event) CopySource)))"

definition waitForCopy_step :: "config \<Rightarrow> services \<Rightarrow> file_event \<Rightarrow> (payload, js_value, action) task" where
  "waitForCopy_step cfg env event args =
     ([WaitFor_objectExists (TARGET_BUCKET cfg) (processed_location event)],
      sdk_callback (waitFor_objectExists env (TARGET_BUCKET cfg) (processed_location event)))"

definition delete_step :: "services \<Rightarrow> file_event \<Rightarrow> (payload, js_value, action) task" where
  "delete_step env event args =
     ([DeleteObject (bucketName event) (objectKey event)],
      sdk_callback (deleteObject env (bucketName event) (objectKey event)))"

definition moveFile_callback :: "file_event \<Rightarrow> payload option \<Rightarrow> js_value list \<Rightarrow> action list" where
  "moveFile_callback event error results =
     (case error of
        Some e \<Rightarrow> [Context_fail None]
      | None \<Rightarrow>
          [Context_succeed (Relocation
             \<lparr>bucketName = bucketName event, objectKey = objectKey event,
              newLocation = processed_location event\<rparr>)])"

definition moveFile :: "bool \<Rightarrow> config \<Rightarrow> services \<Rightarrow> file_event \<Rightarrow> trace" where
  "moveFile catches cfg env event =
     waterfall catches
       [copy_step cfg env event, waitForCopy_step cfg env event, delete_step env event]
       (Some (moveFile_callback event))"

text \<open>
  Modelled from the spec: the object store of section 6, as the set of the
  (bucket, key) pairs that hold an object. A copy the store accepts creates the
  destination key, a delete it accepts removes the key, a call it rejects changes
  nothing.
\<close>

type_synonym object_store = "(string \<times> string) set"

fun s3_effect :: "services \<Rightarrow> (payload, action) event \<Rightarrow> object_store \<Rightarrow> object_store" where
  "s3_effect env (Action (CopyObject b k src)) store =
     (if copyObject env b k src = None then insert (b, k) store else store)"
| "s3_effect env (Action (DeleteObject b k)) store =
     (if deleteObject env b k = None then store - {(b, k)} else store)"
| "s3_effect env ev store = store"

definition store_after :: "services \<Rightarrow> trace \<Rightarrow> object_store \<Rightarrow> object_store" where
  "store_after env tr store = foldl (\<lambda>st ev. s3_effect env ev st) store tr"

section \<open>sendEmail (lines 185 to 217)\<close>

definition notification :: "config \<Rightarrow> file_event \<Rightarrow> email" where
  "notification cfg event =
     \<lparr>ToAddresses = [DEST_EMAIL cfg],
      Body_Text_Data = ''Processed file '' @ objectKey event,
      Subject_Data = ''File processed'',
      Source = DEST_EMAIL cfg\<rparr>"

definition send_step :: "config \<Rightarrow> services \<Rightarrow> file_event \<Rightarrow> (payload, js_value, action) task" where
  "send_step cfg env event args =
     ([SendEmail (notification cfg event)], sdk_callback (ses_sendEmail env (notification cfg event)))"

definition sendEmail_callback :: "payload option \<Rightarrow> js_value list \<Rightarrow> action list" where
  "sendEmail_callback err results =
     (case err of Some e \<Rightarrow> [Context_fail None] | None \<Rightarrow> [Context_succeed (Str ''OK'')])"

definition sendEmail :: "bool \<Rightarrow> config \<Rightarrow> services \<Rightarrow> file_event \<Rightarrow> trace" where
  "sendEmail catches cfg env event =
     waterfall catches [send_step cfg env event] (Some sendEmail_callback)"

section \<open>Terminal signals\<close>

fun is_terminal :: "(payload, action) event \<Rightarrow> bool" where
  "is_terminal (Action (Context_succeed v)) = True"
| "is_terminal (Action (Context_fail m)) = True"
| "is_terminal ev = False"

definition terminal_signals :: "trace \<Rightarrow> trace" where
  "terminal_signals tr = filter is_terminal tr"

text \<open>The \<^verbatim>\<open>putItem\<close> calls of a trace, in order.\<close>

fun is_putItem :: "(payload, action) event \<Rightarrow> bool" where
  "is_putItem (Action (PutItem i t)) = True"
| "is_putItem ev = False"

definition putItem_calls :: "trace \<Rightarrow> trace" where
  "putItem_calls tr = filter is_putItem tr"

text \<open>
  The writes the table store receives. Lines 93 to 106 call
  \<^verbatim>\<open>dynamodb.putItem(params)\<close> with no callback and drop the request object the call
  returns, where every other call of the file passes \<^verbatim>\<open>next\<close>. The AWS SDK is not part
  of the sources, so whether it sends a request that was built without a callback is the
  parameter \<open>sends_without_callback\<close>. Under the SDK's contract such a request is sent
  only by its \<^verbatim>\<open>send()\<close>, which the handler never calls
  (\<open>sends_without_callback = False\<close>); section 6 of the spec reads the call as a write
  that is issued and not awaited (\<open>sends_without_callback = True\<close>).
\<close>

definition table_writes :: "bool \<Rightarrow> trace \<Rightarrow> trace" where
  "table_writes sends_without_callback tr =
     (if sends_without_callback then putItem_calls tr else [])"

section \<open>Sample collaborators\<close>

text \<open>
  Collaborators that accept every call: the engine lists \<open>ms\<close>, every object's stream
  delivers \<open>body\<close>. Single answers are changed by record update.
\<close>

definition accepting :: "state_machine list \<Rightarrow> string \<Rightarrow> services" where
  "accepting ms body =
     \<lparr>listStateMachines = Inr ms,
      startExecution = (\<lambda>arn input. None),
      waitFor_objectExists = (\<lambda>b k. None),
      getObject = (\<lambda>b k. body),
      putItem = (\<lambda>i t. None),
      copyObject = (\<lambda>b k src. None),
      deleteObject = (\<lambda>b k. None),
      ses_sendEmail = (\<lambda>m. None)\<rparr>"

definition sample_config :: config where
  "sample_config =
     \<lparr>STEP_FUNCTION_NAME = ''X'', TARGET_BUCKET = ''dst'', DEST_EMAIL = ''a@b.com''\<rparr>"

definition sample_listing :: "state_machine list" where
  "sample_listing =
     [\<lparr>name = ''X'', stateMachineArn = ''A1''\<rparr>, \<lparr>name = ''Y'', stateMachineArn = ''A2''\<rparr>]"

definition sample_stream :: string where
  "sample_stream = ''s1,100,3.5'' @ [CHR 0x0A] @ ''s2,200,4.1'' @ [CHR 0x0A]"

section \<open>Properties of the stage executor\<close>


lemma run_tasks_invoked_ge:
  "run_tasks c i ts args = (tr, r) \<Longrightarrow> Step_invoked j \<in> set tr \<Longrightarrow> i \<le> j"
proof (induction ts arbitrary: i args tr r)
  case Nil
  then show ?case by simp
next
  case (Cons t ts)
  obtain acts out where t: "t args = (acts, out)" by (cases "t args")
  show ?case
  proof (cases out)
    case (Next_ok args')
    obtain tr' r' where rec: "run_tasks c (Suc i) ts args' = (tr', r')"
      by (cases "run_tasks c (Suc i) ts args'")
    from Cons.prems t Next_ok rec have "j = i \<or> Step_invoked j \<in> set tr'"
      by auto
    with Cons.IH [OF rec] show ?thesis by auto
  qed (use Cons.prems t in \<open>auto split: if_splits\<close>)
qed

lemma run_tasks_fired_ge:
  "run_tasks c i ts args = (tr, r) \<Longrightarrow> Step_fired j x \<in> set tr \<Longrightarrow> i \<le> j"
proof (induction ts arbitrary: i args tr r)
  case Nil
  then show ?case by simp
next
  case (Cons t ts)
  obtain acts out where t: "t args = (acts, out)" by (cases "t args")
  show ?case
  proof (cases out)
    case (Next_ok args')
    obtain tr' r' where rec: "run_tasks c (Suc i) ts args' = (tr', r')"
      by (cases "run_tasks c (Suc i) ts args'")
    from Cons.prems t Next_ok rec have "j = i \<or> Step_fired j x \<in> set tr'"
      by auto
    with Cons.IH [OF rec] show ?thesis by auto
  qed (use Cons.prems t in \<open>auto split: if_splits\<close>)
qed

lemma split_after_prefix:
  "p @ tr = xs @ x # ys \<Longrightarrow> x \<notin> set p \<Longrightarrow> \<exists>us. xs = p @ us \<and> tr = us @ x # ys"
proof (induction p arbitrary: xs)
  case Nil
  then show ?case by simp
next
  case (Cons a p)
  from Cons.prems obtain xs' where xs: "xs = a # xs'"
    by (cases xs) auto
  with Cons.prems have "p @ tr = xs' @ x # ys" "x \<notin> set p" by simp_all
  from Cons.IH [OF this] xs show ?case by auto
qed

lemma run_tasks_order:
  "run_tasks c i ts args = (tr, r) \<Longrightarrow> tr = xs @ Step_invoked (Suc j) # ys \<Longrightarrow> i \<le> j
     \<Longrightarrow> Step_fired j None \<in> set xs"
proof (induction ts arbitrary: i args tr r xs)
  case Nil
  then show ?case by simp
next
  case (Cons t ts)
  obtain acts out where t: "t args = (acts, out)" by (cases "t args")
  have inv: "Step_invoked (Suc j) \<in> set tr" using Cons.prems(2) by simp
  show ?case
  proof (cases out)
    case (Next_ok args')
    obtain tr' r' where rec: "run_tasks c (Suc i) ts args' = (tr', r')"
      by (cases "run_tasks c (Suc i) ts args'")
    have tr: "tr = (Step_invoked i # map Action acts @ [Step_fired i None]) @ tr'"
      using Cons.prems(1) t Next_ok rec by simp
    let ?p = "Step_invoked i # map Action acts @ [Step_fired i None]"
    have nin: "Step_invoked (Suc j) \<notin> set ?p" using Cons.prems(3) by auto
    from tr Cons.prems(2) have "?p @ tr' = xs @ Step_invoked (Suc j) # ys" by simp
    from split_after_prefix [OF this nin]
    obtain us where us: "xs = ?p @ us" "tr' = us @ Step_invoked (Suc j) # ys" by blast
    show ?thesis
    proof (cases "i = j")
      case True
      then show ?thesis using us by simp
    next
      case False
      with Cons.prems(3) have "Suc i \<le> j" by simp
      from Cons.IH [OF rec us(2) this] show ?thesis using us by simp
    qed
  next
    case (Next_err e)
    with Cons.prems(1) t inv Cons.prems(3) show ?thesis by auto
  next
    case (Throws e)
    with Cons.prems(1) t inv Cons.prems(3) show ?thesis by (auto split: if_splits)
  next
    case No_callback
    with Cons.prems(1) t inv Cons.prems(3) show ?thesis by auto
  qed
qed

lemma run_tasks_abort:
  "run_tasks c i ts args = (tr, r) \<Longrightarrow> Step_fired j (Some e) \<in> set tr
     \<Longrightarrow> r = Aborted e \<and> (\<forall>k. Step_invoked k \<in> set tr \<longrightarrow> k \<le> j)
          \<and> (\<exists>pre. tr = pre @ [Step_fired j (Some e)])"
proof (induction ts arbitrary: i args tr r)
  case Nil
  then show ?case by simp
next
  case (Cons t ts)
  obtain acts out where t: "t args = (acts, out)" by (cases "t args")
  show ?case
  proof (cases out)
    case (Next_ok args')
    obtain tr' r' where rec: "run_tasks c (Suc i) ts args' = (tr', r')"
      by (cases "run_tasks c (Suc i) ts args'")
    have tr: "tr = Step_invoked i # map Action acts @ Step_fired i None # tr'" and r: "r = r'"
      using Cons.prems(1) t Next_ok rec by simp_all
    with Cons.prems(2) have mem: "Step_fired j (Some e) \<in> set tr'" by auto
    from run_tasks_fired_ge [OF rec mem] have ij: "i \<le> j" by simp
    from Cons.IH [OF rec mem] obtain pre where
      ih: "r' = Aborted e" "\<forall>k. Step_invoked k \<in> set tr' \<longrightarrow> k \<le> j" "tr' = pre @ [Step_fired j (Some e)]"
      by blast
    have "\<forall>k. Step_invoked k \<in> set tr \<longrightarrow> k \<le> j" using tr ih(2) ij by auto
    moreover have "tr = (Step_invoked i # map Action acts @ Step_fired i None # pre) @ [Step_fired j (Some e)]"
      using tr ih(3) by simp
    ultimately show ?thesis using r ih(1) by blast
  next
    case (Next_err e')
    with Cons.prems t show ?thesis by auto
  next
    case (Throws e')
    with Cons.prems t show ?thesis by (auto split: if_splits)
  next
    case No_callback
    with Cons.prems t show ?thesis by auto
  qed
qed


lemma split_before_suffix:
  "tr @ suf = xs @ x # ys \<Longrightarrow> x \<notin> set suf \<Longrightarrow> \<exists>vs. tr = xs @ x # vs"
proof (induction xs arbitrary: tr)
  case Nil
  then show ?case by (cases tr) auto
next
  case (Cons a xs)
  show ?case
  proof (cases tr)
    case Nil
    with Cons.prems show ?thesis by auto
  next
    case (Cons b tr')
    with Cons.prems have "tr' @ suf = xs @ x # ys" "b = a" by simp_all
    with Cons.IH [OF this(1) Cons.prems(2)] Cons show ?thesis by auto
  qed
qed

lemma run_tasks_threw_ge:
  "run_tasks c i ts args = (tr, r) \<Longrightarrow> Step_threw j x \<in> set tr \<Longrightarrow> i \<le> j"
proof (induction ts arbitrary: i args tr r)
  case Nil
  then show ?case by simp
next
  case (Cons t ts)
  obtain acts out where t: "t args = (acts, out)" by (cases "t args")
  show ?case
  proof (cases out)
    case (Next_ok args')
    obtain tr' r' where rec: "run_tasks c (Suc i) ts args' = (tr', r')"
      by (cases "run_tasks c (Suc i) ts args'")
    from Cons.prems t Next_ok rec have "Step_threw j x \<in> set tr'"
      by auto
    with Cons.IH [OF rec] show ?thesis by auto
  qed (use Cons.prems t in \<open>auto split: if_splits\<close>)
qed

lemma run_tasks_no_chain_callback:
  "run_tasks c i ts args = (tr, r) \<Longrightarrow> Chain_callback x \<notin> set tr"
proof (induction ts arbitrary: i args tr r)
  case Nil
  then show ?case by simp
next
  case (Cons t ts)
  obtain acts out where t: "t args = (acts, out)" by (cases "t args")
  show ?case
  proof (cases out)
    case (Next_ok args')
    obtain tr' r' where rec: "run_tasks c (Suc i) ts args' = (tr', r')"
      by (cases "run_tasks c (Suc i) ts args'")
    from Cons.IH [OF rec] Cons.prems t Next_ok rec show ?thesis by auto
  qed (use Cons.prems t in \<open>auto split: if_splits\<close>)
qed

lemma run_tasks_raise:
  "run_tasks c i ts args = (tr, r) \<Longrightarrow> Step_threw j e \<in> set tr
     \<Longrightarrow> r = (if c then Aborted e else Uncaught e)
          \<and> (\<forall>k. Step_invoked k \<in> set tr \<longrightarrow> k \<le> j)
          \<and> (\<exists>pre. tr = pre @ [Step_threw j e])"
proof (induction ts arbitrary: i args tr r)
  case Nil
  then show ?case by simp
next
  case (Cons t ts)
  obtain acts out where t: "t args = (acts, out)" by (cases "t args")
  show ?case
  proof (cases out)
    case (Next_ok args')
    obtain tr' r' where rec: "run_tasks c (Suc i) ts args' = (tr', r')"
      by (cases "run_tasks c (Suc i) ts args'")
    have tr: "tr = Step_invoked i # map Action acts @ Step_fired i None # tr'" and r: "r = r'"
      using Cons.prems(1) t Next_ok rec by simp_all
    with Cons.prems(2) have mem: "Step_threw j e \<in> set tr'" by auto
    from run_tasks_threw_ge [OF rec mem] have ij: "i \<le> j" by simp
    from Cons.IH [OF rec mem] obtain pre where
      ih: "r' = (if c then Aborted e else Uncaught e)"
        "\<forall>k. Step_invoked k \<in> set tr' \<longrightarrow> k \<le> j" "tr' = pre @ [Step_threw j e]"
      by blast
    have "\<forall>k. Step_invoked k \<in> set tr \<longrightarrow> k \<le> j" using tr ih(2) ij by auto
    moreover have "tr = (Step_invoked i # map Action acts @ Step_fired i None # pre) @ [Step_threw j e]"
      using tr ih(3) by simp
    ultimately show ?thesis using r ih(1) by blast
  next
    case (Next_err e')
    with Cons.prems t show ?thesis by auto
  next
    case (Throws e')
    with Cons.prems t show ?thesis by (auto split: if_splits)
  next
    case No_callback
    with Cons.prems t show ?thesis by auto
  qed
qed

lemma waterfall_parts:
  "\<exists>tr r suf. run_tasks c 0 tasks [] = (tr, r) \<and> waterfall c tasks cb = tr @ suf
     \<and> (\<forall>k. Step_invoked k \<notin> set suf) \<and> (\<forall>k x. Step_fired k x \<notin> set suf)
     \<and> (\<forall>k x. Step_threw k x \<notin> set suf)
     \<and> (\<forall>e. r = Aborted e \<longrightarrow>
            suf = Chain_callback (Some e) # map Action (callback_or_noop cb (Some e) []))
     \<and> (\<forall>e. r = Uncaught e \<longrightarrow> suf = [])"
proof -
  obtain tr r where rt: "run_tasks c 0 tasks [] = (tr, r)"
    by (cases "run_tasks c 0 tasks []")
  show ?thesis
    by (cases r) (auto simp: waterfall_def rt)
qed

lemma waterfall_raise:
  assumes mem: "Step_threw i e \<in> set (waterfall c tasks cb)"
  shows "(\<forall>k. Step_invoked k \<in> set (waterfall c tasks cb) \<longrightarrow> k \<le> i)
     \<and> (\<exists>pre. waterfall c tasks cb =
            pre @ Step_threw i e #
            (if c then Chain_callback (Some e) # map Action (callback_or_noop cb (Some e) [])
             else []))
     \<and> (\<not> c \<longrightarrow> (\<forall>x. Chain_callback x \<notin> set (waterfall c tasks cb)))"
proof -
  obtain tr r suf where rt: "run_tasks c 0 tasks [] = (tr, r)"
    and w: "waterfall c tasks cb = tr @ suf"
    and ninv: "\<forall>k. Step_invoked k \<notin> set suf"
    and nthrew: "\<forall>k x. Step_threw k x \<notin> set suf"
    and ab: "\<forall>e. r = Aborted e \<longrightarrow>
            suf = Chain_callback (Some e) # map Action (callback_or_noop cb (Some e) [])"
    and un: "\<forall>e. r = Uncaught e \<longrightarrow> suf = []"
    using waterfall_parts [of c tasks cb] by blast
  from mem w nthrew have "Step_threw i e \<in> set tr" by auto
  from run_tasks_raise [OF rt this] obtain pre where
    r: "r = (if c then Aborted e else Uncaught e)"
    and inv: "\<forall>k. Step_invoked k \<in> set tr \<longrightarrow> k \<le> i"
    and tr: "tr = pre @ [Step_threw i e]" by blast
  have suf: "suf = (if c then Chain_callback (Some e) # map Action (callback_or_noop cb (Some e) [])
             else [])"
    using r ab un by (cases c) simp_all
  have "\<forall>k. Step_invoked k \<in> set (waterfall c tasks cb) \<longrightarrow> k \<le> i"
    using w inv ninv by auto
  moreover have "waterfall c tasks cb = pre @ Step_threw i e #
            (if c then Chain_callback (Some e) # map Action (callback_or_noop cb (Some e) [])
             else [])"
    using w tr suf by simp
  moreover have "\<forall>x. Chain_callback x \<notin> set (waterfall c tasks cb)" if "\<not> c"
    using that w suf run_tasks_no_chain_callback [OF rt] by simp
  ultimately show ?thesis by blast
qed

text \<open>
  Claim C1, amended. In every run of the stage executor, whatever the steps and the final
  callback: step \<open>i + 1\<close> is invoked only after the completion callback of step \<open>i\<close> has
  fired without an error. When the callback of step \<open>i\<close> fires with an error \<open>e\<close>, no step
  after \<open>i\<close> is invoked and the trace ends with the chain's final callback fired on \<open>e\<close>,
  followed by what that callback does. When step \<open>i\<close> raises \<open>e\<close> instead, no step after
  \<open>i\<close> is invoked either, and the trace ends with the raise; the final callback then fires
  on \<open>e\<close> only under an executor that catches the raise, and under one that does not, as
  \<^verbatim>\<open>async.waterfall\<close>, the final callback never fires.
\<close>

theorem waterfall_sequential_short_circuit:
  "(waterfall c tasks cb = xs @ Step_invoked (Suc i) # ys \<longrightarrow> Step_fired i None \<in> set xs)
   \<and> (Step_fired i (Some e) \<in> set (waterfall c tasks cb) \<longrightarrow>
        (\<forall>k. Step_invoked k \<in> set (waterfall c tasks cb) \<longrightarrow> k \<le> i)
        \<and> (\<exists>pre. waterfall c tasks cb =
               pre @ Step_fired i (Some e) # Chain_callback (Some e) #
               map Action (callback_or_noop cb (Some e) [])))
   \<and> (Step_threw i e \<in> set (waterfall c tasks cb) \<longrightarrow>
        (\<forall>k. Step_invoked k \<in> set (waterfall c tasks cb) \<longrightarrow> k \<le> i)
        \<and> (\<exists>pre. waterfall c tasks cb =
               pre @ Step_threw i e #
               (if c then Chain_callback (Some e) # map Action (callback_or_noop cb (Some e) [])
                else []))
        \<and> (\<not> c \<longrightarrow> (\<forall>x. Chain_callback x \<notin> set (waterfall c tasks cb))))"
proof -
  obtain tr r suf where rt: "run_tasks c 0 tasks [] = (tr, r)"
    and w: "waterfall c tasks cb = tr @ suf"
    and ninv: "\<forall>k. Step_invoked k \<notin> set suf"
    and nfired: "\<forall>k x. Step_fired k x \<notin> set suf"
    and ab: "\<forall>e. r = Aborted e \<longrightarrow>
            suf = Chain_callback (Some e) # map Action (callback_or_noop cb (Some e) [])"
    using waterfall_parts [of c tasks cb] by blast
  have order: "Step_fired i None \<in> set xs" if eq: "waterfall c tasks cb = xs @ Step_invoked (Suc i) # ys"
  proof -
    from eq w have "tr @ suf = xs @ Step_invoked (Suc i) # ys" by simp
    from split_before_suffix [OF this] ninv obtain vs where "tr = xs @ Step_invoked (Suc i) # vs"
      by blast
    from run_tasks_order [OF rt this] show ?thesis by simp
  qed
  have abort: "(\<forall>k. Step_invoked k \<in> set (waterfall c tasks cb) \<longrightarrow> k \<le> i)
        \<and> (\<exists>pre. waterfall c tasks cb =
               pre @ Step_fired i (Some e) # Chain_callback (Some e) #
               map Action (callback_or_noop cb (Some e) []))"
    if mem: "Step_fired i (Some e) \<in> set (waterfall c tasks cb)"
  proof -
    from mem w nfired have "Step_fired i (Some e) \<in> set tr" by auto
    from run_tasks_abort [OF rt this] obtain pre where
      r: "r = Aborted e" and inv: "\<forall>k. Step_invoked k \<in> set tr \<longrightarrow> k \<le> i"
      and tr: "tr = pre @ [Step_fired i (Some e)]" by blast
    from ab r have suf: "suf = Chain_callback (Some e) # map Action (callback_or_noop cb (Some e) [])"
      by simp
    have "\<forall>k. Step_invoked k \<in> set (waterfall c tasks cb) \<longrightarrow> k \<le> i"
      using w inv ninv by auto
    moreover have "waterfall c tasks cb =
               pre @ Step_fired i (Some e) # Chain_callback (Some e) #
               map Action (callback_or_noop cb (Some e) [])"
      using w tr suf by simp
    ultimately show ?thesis by blast
  qed
  from order abort waterfall_raise [of i e c tasks cb] show ?thesis by blast
qed

text \<open>
  A chain of three steps whose second step reports a timeout, and the same chain with a
  second step that raises, under an executor that does not catch and under one that does:
  the third step never runs.
\<close>

theorem waterfall_sequential_short_circuit_witness:
  "Step_fired 0 None \<in> set [Step_invoked 0, Action ''copy'', Step_fired 0 (None :: string option)]
   \<and> (\<exists>pre. waterfall False
        [\<lambda>args. ([''copy''], Next_ok [Suc 0]),
         \<lambda>args. ([''wait''], Next_err ''timeout''),
         \<lambda>args. ([''delete''], Next_ok [])]
        (Some (\<lambda>err args. [''fail''])) =
      pre @ Step_fired (Suc 0) (Some ''timeout'') # Chain_callback (Some ''timeout'') #
      map Action [''fail''])
   \<and> (\<exists>pre. waterfall False
        [\<lambda>args. ([''copy''], Next_ok [Suc 0]),
         \<lambda>args. ([''wait''], Throws ''timeout''),
         \<lambda>args. ([''delete''], Next_ok [])]
        (Some (\<lambda>err args. [''fail''])) =
      pre @ [Step_threw (Suc 0) ''timeout''])
   \<and> (\<exists>pre. waterfall True
        [\<lambda>args. ([''copy''], Next_ok [Suc 0]),
         \<lambda>args. ([''wait''], Throws ''timeout''),
         \<lambda>args. ([''delete''], Next_ok [])]
        (Some (\<lambda>err args. [''fail''])) =
      pre @ Step_threw (Suc 0) ''timeout'' # Chain_callback (Some ''timeout'') #
      map Action [''fail''])"
proof -
  let ?tasks = "[\<lambda>args. ([''copy''], Next_ok [Suc 0]),
         \<lambda>args. ([''wait''], Next_err ''timeout''),
         \<lambda>args. ([''delete''], Next_ok [])] :: (string, nat, string) task list"
  let ?raising = "[\<lambda>args. ([''copy''], Next_ok [Suc 0]),
         \<lambda>args. ([''wait''], Throws ''timeout''),
         \<lambda>args. ([''delete''], Next_ok [])] :: (string, nat, string) task list"
  let ?cb = "Some (\<lambda>err args. [''fail'']) :: (string option \<Rightarrow> nat list \<Rightarrow> string list) option"
  let ?xs = "[Step_invoked 0, Action ''copy'', Step_fired 0 None] :: (string, string) event list"
  let ?ys = "[Action ''wait'', Step_fired (Suc 0) (Some ''timeout''),
              Chain_callback (Some ''timeout''), Action ''fail''] :: (string, string) event list"
  have tr: "waterfall False ?tasks ?cb = ?xs @ Step_invoked (Suc 0) # ?ys"
    by (simp add: waterfall_def callback_or_noop_def)
  have fired: "Step_fired (Suc 0) (Some ''timeout'') \<in> set (waterfall False ?tasks ?cb)"
    unfolding tr by simp
  have threw: "Step_threw (Suc 0) ''timeout'' \<in> set (waterfall c ?raising ?cb)" for c
    by (simp add: waterfall_def callback_or_noop_def)
  have first: "Step_fired 0 None \<in> set ?xs"
    using waterfall_sequential_short_circuit [of False ?tasks ?cb ?xs 0 ?ys] tr by blast
  have second: "\<exists>pre. waterfall False ?tasks ?cb =
      pre @ Step_fired (Suc 0) (Some ''timeout'') # Chain_callback (Some ''timeout'') #
      map Action (callback_or_noop ?cb (Some ''timeout'') [])"
    using waterfall_sequential_short_circuit [of False ?tasks ?cb _ "Suc 0" _ "''timeout''"] fired
    by blast
  have third: "\<exists>pre. waterfall False ?raising ?cb =
      pre @ Step_threw (Suc 0) ''timeout'' #
      (if False then Chain_callback (Some ''timeout'') #
                     map Action (callback_or_noop ?cb (Some ''timeout'') [])
       else [])"
    using waterfall_sequential_short_circuit [of False ?raising ?cb _ "Suc 0" _ "''timeout''"]
      threw [of False]
    by blast
  have fourth: "\<exists>pre. waterfall True ?raising ?cb =
      pre @ Step_threw (Suc 0) ''timeout'' #
      (if True then Chain_callback (Some ''timeout'') #
                    map Action (callback_or_noop ?cb (Some ''timeout'') [])
       else [])"
    using waterfall_sequential_short_circuit [of True ?raising ?cb _ "Suc 0" _ "''timeout''"]
      threw [of True]
    by blast
  from first second third fourth show ?thesis by (simp add: callback_or_noop_def)
qed

text \<open>
  Claim C1 as stated fails for a step that signals its failure by raising. Under an
  executor that does not catch, the second step of this chain raises, and the chain's
  failure callback never fires: nothing of what it would do happens.
\<close>

theorem waterfall_raise_misses_failure_callback:
  "Step_threw (Suc 0) ''not found'' \<in> set
     (waterfall False
        [\<lambda>args. ([''list''], Next_ok [Suc 0]),
         \<lambda>args. ([], Throws ''not found''),
         \<lambda>args. ([''start''], Next_ok [])]
        (Some (\<lambda>err args. [''fail''])))
   \<and> Chain_callback (Some ''not found'') \<notin> set
     (waterfall False
        [\<lambda>args. ([''list''], Next_ok [Suc 0]),
         \<lambda>args. ([], Throws ''not found''),
         \<lambda>args. ([''start''], Next_ok [])]
        (Some (\<lambda>err args. [''fail''])))
   \<and> Action ''fail'' \<notin> set
     (waterfall False
        [\<lambda>args. ([''list''], Next_ok [Suc 0]),
         \<lambda>args. ([], Throws ''not found''),
         \<lambda>args. ([''start''], Next_ok [])]
        (Some (\<lambda>err args. [''fail''])))"
  by (simp add: waterfall_def callback_or_noop_def)

section \<open>The traces of the handlers\<close>

text \<open>Each handler, run through the executor, as an explicit trace.\<close>

lemma resolveWorkflow_find:
  "resolveWorkflow n ms =
     (case find (\<lambda>item. name item = n) ms of
        Some item \<Rightarrow> Next_ok [Arn (stateMachineArn item)]
      | None \<Rightarrow> Throws (Thrown_string ''Step function with the given name doesn't exist''))"
  by (induction ms) simp_all

lemma sendEmail_trace:
  "sendEmail c cfg env event =
     [Step_invoked 0, Action (SendEmail (notification cfg event)),
      Step_fired 0 (ses_sendEmail env (notification cfg event)),
      Chain_callback (ses_sendEmail env (notification cfg event)),
      Action (case ses_sendEmail env (notification cfg event) of
                None \<Rightarrow> Context_succeed (Str ''OK'')
              | Some err \<Rightarrow> Context_fail None)]"
  by (simp add: sendEmail_def waterfall_def send_step_def sdk_callback_def
        callback_or_noop_def sendEmail_callback_def split: option.split)

lemma moveFile_trace:
  "moveFile c cfg env event =
     (let tb = TARGET_BUCKET cfg; loc = processed_location event;
          src = bucketName event @ ''/'' @ encodeURIComponent (objectKey event);
          copied = copyObject env tb loc src;
          found = waitFor_objectExists env tb loc;
          deleted = deleteObject env (bucketName event) (objectKey event)
      in Step_invoked 0 # Action (CopyObject tb loc src) # Step_fired 0 copied #
         (case copied of
            Some e \<Rightarrow> [Chain_callback (Some e), Action (Context_fail None)]
          | None \<Rightarrow>
              Step_invoked 1 # Action (WaitFor_objectExists tb loc) # Step_fired 1 found #
              (case found of
                 Some e \<Rightarrow> [Chain_callback (Some e), Action (Context_fail None)]
               | None \<Rightarrow>
                   Step_invoked 2 # Action (DeleteObject (bucketName event) (objectKey event)) #
                   Step_fired 2 deleted #
                   (case deleted of
                      Some e \<Rightarrow> [Chain_callback (Some e), Action (Context_fail None)]
                    | None \<Rightarrow>
                        [Chain_callback None,
                         Action (Context_succeed (Relocation
                           \<lparr>bucketName = bucketName event, objectKey = objectKey event,
                            newLocation = loc\<rparr>))]))))"
  by (simp add: moveFile_def waterfall_def copy_step_def waitForCopy_step_def delete_step_def
        sdk_callback_def callback_or_noop_def moveFile_callback_def Let_def numeral_2_eq_2
        split: option.split)

lemma processFile_trace:
  "processFile c decode env event =
     (let b = bucketName event; k = objectKey event in
      case waitFor_objectExists env b k of
        Some e \<Rightarrow>
          [Step_invoked 0, Action (WaitFor_objectExists b k), Step_fired 0 (Some e),
           Chain_callback (Some e), Action (Context_fail (Some ''Execution failed''))]
      | None \<Rightarrow>
          [Step_invoked 0, Action (WaitFor_objectExists b k), Step_fired 0 None,
           Step_invoked 1, Action (GetObject_createReadStream b k),
           Action (Csv_fromStream_on_data b k), Step_fired 1 None,
           Chain_callback None, Action (Context_succeed (File event))] @
          map (\<lambda>data. Action (on_data data)) (decode (getObject env b k)))"
  by (simp add: processFile_def waterfall_def waitForUpload_step_def ingest_step_def
        sdk_callback_def callback_or_noop_def processFile_callback_def Let_def data_events_def
        split: option.split)

lemma executeWorkflow_trace:
  "executeWorkflow c cfg env (Records_event records) =
     Step_invoked 0 # Action ListStateMachines #
     (case listStateMachines env of
        Inl err \<Rightarrow> [Step_fired 0 (Some err), Chain_callback (Some err)]
      | Inr ms \<Rightarrow>
          Step_fired 0 None # Step_invoked 1 #
          (case find (\<lambda>item. name item = STEP_FUNCTION_NAME cfg) ms of
             None \<Rightarrow>
               Step_threw 1 (Thrown_string ''Step function with the given name doesn't exist'') #
               (if c then [Chain_callback
                  (Some (Thrown_string ''Step function with the given name doesn't exist''))]
                else [])
           | Some item \<Rightarrow>
               Step_fired 1 None # Step_invoked 2 #
               (case records of
                  [] \<Rightarrow> Step_threw 2 Type_error #
                          (if c then [Chain_callback (Some Type_error)] else [])
                | eventData # _ \<Rightarrow>
                    (let input = JSON_stringify_input (s3_object_key eventData)
                                   (s3_bucket_name eventData);
                         started = startExecution env (stateMachineArn item) input
                     in Action (StartExecution (stateMachineArn item) input) #
                        Step_fired 2 started #
                        (case started of
                           Some e \<Rightarrow> [Chain_callback (Some e)]
                         | None \<Rightarrow> [Step_invoked 3, Action (Context_succeed (Str ''OK''))])))))"
  by (simp add: executeWorkflow_def waterfall_def listWorkflows_step_def
        resolveWorkflow_step_def resolveWorkflow_find startWorkflow_step_def succeed_step_def
        sdk_callback_def callback_or_noop_def noop_def Let_def numeral_2_eq_2 numeral_3_eq_3
        split: option.split sum.split list.split)

section \<open>Notification and the success value of processFile\<close>

text \<open>
  Claim C9. Whatever the configuration, the collaborators and the event, sendEmail makes
  exactly one call: it sends one message with subject "File processed", with the body
  "Processed file " followed by the event's object key, to the configured destination
  address, which is also the sender. The answer of the notification service goes to the
  final callback unchanged: a send error fails the invocation at once, with no second
  attempt, and otherwise the invocation succeeds with "OK".
\<close>

theorem sendEmail_one_message:
  "sendEmail c cfg env event =
     [Step_invoked 0,
      Action (SendEmail
        \<lparr>ToAddresses = [DEST_EMAIL cfg],
         Body_Text_Data = ''Processed file '' @ objectKey event,
         Subject_Data = ''File processed'',
         Source = DEST_EMAIL cfg\<rparr>),
      Step_fired 0 (ses_sendEmail env (notification cfg event)),
      Chain_callback (ses_sendEmail env (notification cfg event)),
      Action (case ses_sendEmail env (notification cfg event) of
                None \<Rightarrow> Context_succeed (Str ''OK'')
              | Some err \<Rightarrow> Context_fail None)]"
  unfolding sendEmail_trace by (simp add: notification_def)

text \<open>
  With DEST_EMAIL "a@b.com" and object key "f.csv": the run in which the send is accepted,
  and the run in which it is throttled.
\<close>

theorem sendEmail_one_message_witness:
  "sendEmail False sample_config (accepting [] []) \<lparr>bucketName = ''src'', objectKey = ''f.csv''\<rparr> =
     [Step_invoked 0,
      Action (SendEmail
        \<lparr>ToAddresses = [''a@b.com''], Body_Text_Data = ''Processed file f.csv'',
         Subject_Data = ''File processed'', Source = ''a@b.com''\<rparr>),
      Step_fired 0 None, Chain_callback None, Action (Context_succeed (Str ''OK''))]
   \<and> sendEmail False sample_config
        ((accepting [] [])\<lparr>ses_sendEmail := \<lambda>m. Some (Service_error ''Throttling'')\<rparr>)
        \<lparr>bucketName = ''src'', objectKey = ''f.csv''\<rparr> =
     [Step_invoked 0,
      Action (SendEmail
        \<lparr>ToAddresses = [''a@b.com''], Body_Text_Data = ''Processed file f.csv'',
         Subject_Data = ''File processed'', Source = ''a@b.com''\<rparr>),
      Step_fired 0 (Some (Service_error ''Throttling'')),
      Chain_callback (Some (Service_error ''Throttling'')), Action (Context_fail None)]"
  using sendEmail_one_message
          [of False sample_config "accepting [] []" "\<lparr>bucketName = ''src'', objectKey = ''f.csv''\<rparr>"]
        sendEmail_one_message
          [of False sample_config
              "(accepting [] [])\<lparr>ses_sendEmail := \<lambda>m. Some (Service_error ''Throttling'')\<rparr>"
              "\<lparr>bucketName = ''src'', objectKey = ''f.csv''\<rparr>"]
  by (simp add: accepting_def sample_config_def notification_def)

text \<open>
  Claim C10. Every success signal of processFile carries its input event, unchanged,
  whatever the stream decodes to; and processFile gives that signal whenever the wait
  for the uploaded object succeeds.
\<close>

theorem processFile_succeeds_with_event:
  "(Action (Context_succeed v) \<in> set (processFile c decode env event) \<longrightarrow> v = File event)
   \<and> (waitFor_objectExists env (bucketName event) (objectKey event) = None \<longrightarrow>
        Action (Context_succeed (File event)) \<in> set (processFile c decode env event))"
  unfolding processFile_trace
  by (auto simp: Let_def on_data_def split: option.split)

text \<open>
  A run on the two-row stream: the success signal carries the event.
\<close>

theorem processFile_succeeds_with_event_witness:
  "Action (Context_succeed (File \<lparr>bucketName = ''b'', objectKey = ''k.csv''\<rparr>))
     \<in> set (processFile False csv_rows (accepting [] sample_stream)
              \<lparr>bucketName = ''b'', objectKey = ''k.csv''\<rparr>)"
  using processFile_succeeds_with_event
          [of _ False csv_rows "accepting [] sample_stream"
              "\<lparr>bucketName = ''b'', objectKey = ''k.csv''\<rparr>"]
  by (simp add: accepting_def)

section \<open>The ingestion stage\<close>

lemma write_not_in_prefix:
  "Action (PutItem i t) \<notin> set
     [Step_invoked 0, Action (WaitFor_objectExists b k), Step_fired 0 None,
      Step_invoked 1, Action (GetObject_createReadStream b k),
      Action (Csv_fromStream_on_data b k), Step_fired 1 None,
      Chain_callback None, Action (Context_succeed (File event))]"
  by simp

text \<open>
  Claim C3. When the wait for the uploaded object succeeds, the ingestion step opens the
  stream, registers its row listener and fires its completion callback at once; the final
  callback and the success signal follow, and only then come the \<^verbatim>\<open>putItem\<close> calls, one
  for each decoded row. So every such call in a trace of processFile has the ingestion
  callback and the success signal before it, and no write is acknowledged before the call
  that asks for it. No answer of the table store to a write is read: the trace is the
  same for all answers.
\<close>

theorem processFile_signals_before_writes:
  "(waitFor_objectExists env (bucketName event) (objectKey event) = None \<longrightarrow>
      processFile c decode env event =
        [Step_invoked 0, Action (WaitFor_objectExists (bucketName event) (objectKey event)),
         Step_fired 0 None,
         Step_invoked 1, Action (GetObject_createReadStream (bucketName event) (objectKey event)),
         Action (Csv_fromStream_on_data (bucketName event) (objectKey event)),
         Step_fired 1 None,
         Chain_callback None, Action (Context_succeed (File event))] @
        map (\<lambda>data. Action (on_data data))
          (decode (getObject env (bucketName event) (objectKey event))))
   \<and> (processFile c decode env event = xs @ Action (PutItem i t) # ys \<longrightarrow>
        Step_fired 1 None \<in> set xs \<and> Action (Context_succeed (File event)) \<in> set xs)
   \<and> processFile c decode (env\<lparr>putItem := answers\<rparr>) event = processFile c decode env event"
proof -
  let ?b = "bucketName event" and ?k = "objectKey event"
  let ?sync = "[Step_invoked 0, Action (WaitFor_objectExists ?b ?k), Step_fired 0 None,
      Step_invoked 1, Action (GetObject_createReadStream ?b ?k),
      Action (Csv_fromStream_on_data ?b ?k), Step_fired 1 None,
      Chain_callback None, Action (Context_succeed (File event))]"
  let ?rows = "map (\<lambda>data. Action (on_data data)) (decode (getObject env ?b ?k))"
  have reached: "processFile c decode env event = ?sync @ ?rows"
    if "waitFor_objectExists env ?b ?k = None"
    using that by (simp add: processFile_trace Let_def)
  have before: "Step_fired 1 None \<in> set xs \<and> Action (Context_succeed (File event)) \<in> set xs"
    if eq: "processFile c decode env event = xs @ Action (PutItem i t) # ys"
  proof (cases "waitFor_objectExists env ?b ?k")
    case None
    from reached [OF None] eq have "?sync @ ?rows = xs @ Action (PutItem i t) # ys" by simp
    from split_after_prefix [OF this write_not_in_prefix]
    obtain us where "xs = ?sync @ us" by blast
    then show ?thesis by simp
  next
    case (Some e)
    then have "Action (PutItem i t) \<notin> set (processFile c decode env event)"
      by (simp add: processFile_trace Let_def)
    with eq show ?thesis by simp
  qed
  have same: "processFile c decode (env\<lparr>putItem := answers\<rparr>) event = processFile c decode env event"
    by (simp add: processFile_trace Let_def split: option.split)
  from reached before same show ?thesis by blast
qed

text \<open>
  A run in which the table store rejects every write: processFile still succeeds, and
  signals it before the first write.
\<close>

theorem processFile_signals_before_writes_witness:
  "processFile False csv_rows
      ((accepting [] sample_stream)\<lparr>putItem := \<lambda>i t. Some (Service_error ''Throttled'')\<rparr>)
      \<lparr>bucketName = ''b'', objectKey = ''k.csv''\<rparr> =
     [Step_invoked 0, Action (WaitFor_objectExists ''b'' ''k.csv''), Step_fired 0 None,
      Step_invoked 1, Action (GetObject_createReadStream ''b'' ''k.csv''),
      Action (Csv_fromStream_on_data ''b'' ''k.csv''), Step_fired 1 None,
      Chain_callback None,
      Action (Context_succeed (File \<lparr>bucketName = ''b'', objectKey = ''k.csv''\<rparr>)),
      Action (on_data [''s1'', ''100'', ''3.5'']), Action (on_data [''s2'', ''200'', ''4.1''])]
   \<and> Action (Context_succeed (File \<lparr>bucketName = ''b'', objectKey = ''k.csv''\<rparr>)) \<in> set
       [Step_invoked 0, Action (WaitFor_objectExists ''b'' ''k.csv''), Step_fired 0 None,
        Step_invoked 1, Action (GetObject_createReadStream ''b'' ''k.csv''),
        Action (Csv_fromStream_on_data ''b'' ''k.csv''), Step_fired 1 None,
        Chain_callback None,
        Action (Context_succeed (File \<lparr>bucketName = ''b'', objectKey = ''k.csv''\<rparr>))]"
proof -
  let ?env = "accepting [] sample_stream"
  let ?ev = "\<lparr>bucketName = ''b'', objectKey = ''k.csv''\<rparr>"
  let ?xs = "[Step_invoked 0, Action (WaitFor_objectExists ''b'' ''k.csv''), Step_fired 0 None,
        Step_invoked 1, Action (GetObject_createReadStream ''b'' ''k.csv''),
        Action (Csv_fromStream_on_data ''b'' ''k.csv''), Step_fired 1 None,
        Chain_callback None, Action (Context_succeed (File ?ev))] :: trace"
  let ?item = "[(''sensor_id'', S (Some ''s1'')), (''timestamp'', N (Some ''100'')),
                (''value'', N (Some ''3.5''))]"
  let ?ys = "[Action (on_data [''s2'', ''200'', ''4.1''])] :: trace"
  have ok: "waitFor_objectExists ?env (bucketName ?ev) (objectKey ?ev) = None"
    by (simp add: accepting_def)
  have rows: "csv_rows (getObject ?env (bucketName ?ev) (objectKey ?ev)) =
      [[''s1'', ''100'', ''3.5''], [''s2'', ''200'', ''4.1'']]"
    by (simp add: accepting_def csv_rows_def sample_stream_def)
  note inst = processFile_signals_before_writes
      [where env = ?env and event = ?ev and c = False and decode = csv_rows and xs = ?xs
         and i = ?item and t = "''sensor_data''" and ys = ?ys
         and answers = "\<lambda>i t. Some (Service_error ''Throttled'')"]
  from inst ok have run: "processFile False csv_rows ?env ?ev =
      ?xs @ map (\<lambda>data. Action (on_data data))
              (csv_rows (getObject ?env (bucketName ?ev) (objectKey ?ev)))"
    by simp
  have first: "Action (on_data [''s1'', ''100'', ''3.5'']) = Action (PutItem ?item ''sensor_data'')"
    by (simp add: on_data_def numeral_2_eq_2)
  have split: "processFile False csv_rows ?env ?ev = ?xs @ Action (PutItem ?item ''sensor_data'') # ?ys"
    unfolding run rows first [symmetric] by simp
  from inst split have before: "Action (Context_succeed (File ?ev)) \<in> set ?xs"
    by blast
  from inst have same: "processFile False csv_rows
      (?env\<lparr>putItem := \<lambda>i t. Some (Service_error ''Throttled'')\<rparr>) ?ev =
      processFile False csv_rows ?env ?ev"
    by blast
  have whole: "processFile False csv_rows
      (?env\<lparr>putItem := \<lambda>i t. Some (Service_error ''Throttled'')\<rparr>) ?ev =
      ?xs @ [Action (on_data [''s1'', ''100'', ''3.5'']), Action (on_data [''s2'', ''200'', ''4.1''])]"
    unfolding same run rows by simp
  from whole before show ?thesis by simp
qed

lemma putItem_calls_processFile:
  "waitFor_objectExists env (bucketName event) (objectKey event) = None \<Longrightarrow>
     putItem_calls (processFile c decode env event) =
       map (\<lambda>data. Action (PutItem
              [(''sensor_id'', S (nth_opt data 0)),
               (''timestamp'', N (nth_opt data 1)),
               (''value'', N (nth_opt data 2))]
              ''sensor_data''))
         (decode (getObject env (bucketName event) (objectKey event)))"
proof -
  assume ok: "waitFor_objectExists env (bucketName event) (objectKey event) = None"
  have filt: "filter is_putItem (map (\<lambda>data. Action (on_data data)) rows) =
      map (\<lambda>data. Action (on_data data)) rows" for rows
    by (induction rows) (simp_all add: on_data_def)
  from ok have "putItem_calls (processFile c decode env event) =
      map (\<lambda>data. Action (on_data data))
        (decode (getObject env (bucketName event) (objectKey event)))"
    by (simp add: processFile_trace Let_def putItem_calls_def filt)
  then show ?thesis by (simp add: on_data_def numeral_2_eq_2)
qed

lemma csv_rows_sample:
  "csv_rows sample_stream = [[''s1'', ''100'', ''3.5''], [''s2'', ''200'', ''4.1'']]"
  by (simp add: csv_rows_def sample_stream_def)

text \<open>
  Claim C7 asks for exactly one table-store write for each decoded row. processFile on the
  stream "s1,100,3.5\ns2,200,4.1\n", with collaborators that accept every call: the
  listener calls \<^verbatim>\<open>putItem\<close> twice, on the attributes (s1, 100, 3.5) and (s2, 200, 4.1)
  for the table "sensor_data", but with no callback, and the two requests are never sent:
  the table store receives no write. It would receive the two writes of the claim if a
  request built without a callback were sent.
\<close>

theorem ingester_requests_never_sent:
  "putItem_calls (processFile c csv_rows (accepting [] sample_stream)
      \<lparr>bucketName = ''b'', objectKey = ''k.csv''\<rparr>) =
     [Action (PutItem
        [(''sensor_id'', S (Some ''s1'')), (''timestamp'', N (Some ''100'')),
         (''value'', N (Some ''3.5''))] ''sensor_data''),
      Action (PutItem
        [(''sensor_id'', S (Some ''s2'')), (''timestamp'', N (Some ''200'')),
         (''value'', N (Some ''4.1''))] ''sensor_data'')]
   \<and> table_writes False (processFile c csv_rows (accepting [] sample_stream)
        \<lparr>bucketName = ''b'', objectKey = ''k.csv''\<rparr>) = []
   \<and> table_writes True (processFile c csv_rows (accepting [] sample_stream)
        \<lparr>bucketName = ''b'', objectKey = ''k.csv''\<rparr>) =
     [Action (PutItem
        [(''sensor_id'', S (Some ''s1'')), (''timestamp'', N (Some ''100'')),
         (''value'', N (Some ''3.5''))] ''sensor_data''),
      Action (PutItem
        [(''sensor_id'', S (Some ''s2'')), (''timestamp'', N (Some ''200'')),
         (''value'', N (Some ''4.1''))] ''sensor_data'')]"
proof -
  let ?env = "accepting [] sample_stream"
  let ?ev = "\<lparr>bucketName = ''b'', objectKey = ''k.csv''\<rparr>"
  have ok: "waitFor_objectExists ?env (bucketName ?ev) (objectKey ?ev) = None"
    by (simp add: accepting_def)
  have body: "getObject ?env (bucketName ?ev) (objectKey ?ev) = sample_stream"
    by (simp add: accepting_def)
  have calls: "putItem_calls (processFile c csv_rows ?env ?ev) =
     [Action (PutItem
        [(''sensor_id'', S (Some ''s1'')), (''timestamp'', N (Some ''100'')),
         (''value'', N (Some ''3.5''))] ''sensor_data''),
      Action (PutItem
        [(''sensor_id'', S (Some ''s2'')), (''timestamp'', N (Some ''200'')),
         (''value'', N (Some ''4.1''))] ''sensor_data'')]"
    unfolding putItem_calls_processFile [OF ok] body csv_rows_sample
    by (simp add: numeral_2_eq_2)
  then show ?thesis by (simp add: table_writes_def)
qed

section \<open>Relocation\<close>

text \<open>
  Claim C8. moveFile performs three operations in order: it copies the source object to
  the key "processed/" followed by the object key in the target bucket, waits until that
  key exists, and deletes the source object; each begins only when the one before has
  succeeded, and the first failure fails the invocation. When the copy or the wait fails,
  no delete is issued, so a source object that existed still exists; and when the copy
  succeeded and the wait failed, the destination object exists too.
\<close>

theorem moveFile_copy_wait_delete:
  "moveFile c cfg env event =
     (let tb = TARGET_BUCKET cfg; loc = ''processed/'' @ objectKey event;
          src = bucketName event @ ''/'' @ encodeURIComponent (objectKey event);
          copied = copyObject env tb loc src;
          found = waitFor_objectExists env tb loc;
          deleted = deleteObject env (bucketName event) (objectKey event)
      in Step_invoked 0 # Action (CopyObject tb loc src) # Step_fired 0 copied #
         (case copied of
            Some e \<Rightarrow> [Chain_callback (Some e), Action (Context_fail None)]
          | None \<Rightarrow>
              Step_invoked 1 # Action (WaitFor_objectExists tb loc) # Step_fired 1 found #
              (case found of
                 Some e \<Rightarrow> [Chain_callback (Some e), Action (Context_fail None)]
               | None \<Rightarrow>
                   Step_invoked 2 # Action (DeleteObject (bucketName event) (objectKey event)) #
                   Step_fired 2 deleted #
                   (case deleted of
                      Some e \<Rightarrow> [Chain_callback (Some e), Action (Context_fail None)]
                    | None \<Rightarrow>
                        [Chain_callback None,
                         Action (Context_succeed (Relocation
                           \<lparr>bucketName = bucketName event, objectKey = objectKey event,
                            newLocation = loc\<rparr>))]))))
   \<and> ((copyObject env (TARGET_BUCKET cfg) (''processed/'' @ objectKey event)
          (bucketName event @ ''/'' @ encodeURIComponent (objectKey event)) \<noteq> None
        \<or> waitFor_objectExists env (TARGET_BUCKET cfg) (''processed/'' @ objectKey event) \<noteq> None)
       \<longrightarrow> Action (DeleteObject b k) \<notin> set (moveFile c cfg env event)
           \<and> ((bucketName event, objectKey event) \<in> store \<longrightarrow>
                (bucketName event, objectKey event) \<in> store_after env (moveFile c cfg env event) store))
   \<and> (copyObject env (TARGET_BUCKET cfg) (''processed/'' @ objectKey event)
          (bucketName event @ ''/'' @ encodeURIComponent (objectKey event)) = None
        \<and> waitFor_objectExists env (TARGET_BUCKET cfg) (''processed/'' @ objectKey event) \<noteq> None
       \<longrightarrow> (TARGET_BUCKET cfg, ''processed/'' @ objectKey event)
             \<in> store_after env (moveFile c cfg env event) store)"
  unfolding moveFile_trace
  by (auto simp: Let_def processed_location_def store_after_def split: option.split)

text \<open>
  Moving "f.csv" from bucket "src" to bucket "dst" when the wait times out: the copy was
  made, nothing was deleted, and both objects exist.
\<close>

theorem moveFile_copy_wait_delete_witness:
  "moveFile False sample_config
      ((accepting [] [])\<lparr>waitFor_objectExists := \<lambda>b k. Some (Service_error ''timeout'')\<rparr>)
      \<lparr>bucketName = ''src'', objectKey = ''f.csv''\<rparr> =
     [Step_invoked 0, Action (CopyObject ''dst'' ''processed/f.csv'' ''src/f.csv''),
      Step_fired 0 None,
      Step_invoked 1, Action (WaitFor_objectExists ''dst'' ''processed/f.csv''),
      Step_fired 1 (Some (Service_error ''timeout'')),
      Chain_callback (Some (Service_error ''timeout'')), Action (Context_fail None)]
   \<and> (''src'', ''f.csv'') \<in>
       store_after ((accepting [] [])\<lparr>waitFor_objectExists := \<lambda>b k. Some (Service_error ''timeout'')\<rparr>)
         (moveFile False sample_config
            ((accepting [] [])\<lparr>waitFor_objectExists := \<lambda>b k. Some (Service_error ''timeout'')\<rparr>)
            \<lparr>bucketName = ''src'', objectKey = ''f.csv''\<rparr>)
         {(''src'', ''f.csv'')}
   \<and> (''dst'', ''processed/f.csv'') \<in>
       store_after ((accepting [] [])\<lparr>waitFor_objectExists := \<lambda>b k. Some (Service_error ''timeout'')\<rparr>)
         (moveFile False sample_config
            ((accepting [] [])\<lparr>waitFor_objectExists := \<lambda>b k. Some (Service_error ''timeout'')\<rparr>)
            \<lparr>bucketName = ''src'', objectKey = ''f.csv''\<rparr>)
         {(''src'', ''f.csv'')}"
proof -
  let ?env = "(accepting [] [])\<lparr>waitFor_objectExists := \<lambda>b k. Some (Service_error ''timeout'')\<rparr>"
  let ?ev = "\<lparr>bucketName = ''src'', objectKey = ''f.csv''\<rparr>"
  have enc: "encodeURIComponent ''f.csv'' = ''f.csv''"
    by (simp add: encodeURIComponent_def uri_unreserved_def)
  have copied: "copyObject ?env (TARGET_BUCKET sample_config) (''processed/'' @ objectKey ?ev)
          (bucketName ?ev @ ''/'' @ encodeURIComponent (objectKey ?ev)) = None"
    by (simp add: accepting_def)
  have lost: "waitFor_objectExists ?env (TARGET_BUCKET sample_config)
          (''processed/'' @ objectKey ?ev) \<noteq> None"
    by (simp add: accepting_def)
  have held: "(bucketName ?ev, objectKey ?ev) \<in> {(''src'', ''f.csv'')}" by simp
  note inst = moveFile_copy_wait_delete [of False sample_config ?env ?ev _ _ "{(''src'', ''f.csv'')}"]
  from inst have run: "moveFile False sample_config ?env ?ev =
     [Step_invoked 0, Action (CopyObject ''dst'' ''processed/f.csv'' ''src/f.csv''),
      Step_fired 0 None,
      Step_invoked 1, Action (WaitFor_objectExists ''dst'' ''processed/f.csv''),
      Step_fired 1 (Some (Service_error ''timeout'')),
      Chain_callback (Some (Service_error ''timeout'')), Action (Context_fail None)]"
    by (simp add: enc sample_config_def accepting_def Let_def)
  from inst copied lost held
  have kept: "(bucketName ?ev, objectKey ?ev) \<in>
      store_after ?env (moveFile False sample_config ?env ?ev) {(''src'', ''f.csv'')}"
    by blast
  from inst copied lost
  have made: "(TARGET_BUCKET sample_config, ''processed/'' @ objectKey ?ev) \<in>
      store_after ?env (moveFile False sample_config ?env ?ev) {(''src'', ''f.csv'')}"
    by blast
  from kept have kept': "(''src'', ''f.csv'') \<in>
      store_after ?env (moveFile False sample_config ?env ?ev) {(''src'', ''f.csv'')}"
    by simp
  from made have made': "(''dst'', ''processed/f.csv'') \<in>
      store_after ?env (moveFile False sample_config ?env ?ev) {(''src'', ''f.csv'')}"
    by (simp add: sample_config_def)
  from run kept' made' show ?thesis by blast
qed

section \<open>Resolving and starting the workflow\<close>

lemma resolveWorkflow_first:
  "name item = n \<Longrightarrow> \<forall>x \<in> set pre. name x \<noteq> n
     \<Longrightarrow> resolveWorkflow n (pre @ item # post) = Next_ok [Arn (stateMachineArn item)]"
  by (induction pre) simp_all

lemma resolveWorkflow_none:
  "\<forall>x \<in> set ms. name x \<noteq> n
     \<Longrightarrow> resolveWorkflow n ms =
          Throws (Thrown_string ''Step function with the given name doesn't exist'')"
  by (induction ms) simp_all

lemma find_none_names: "(\<forall>x \<in> set ms. name x \<noteq> n) \<Longrightarrow> find (\<lambda>item. name item = n) ms = None"
  by (induction ms) simp_all

lemma start_after_resolve:
  "executeWorkflow c cfg env event = xs @ Action (StartExecution arn input) # ys
     \<Longrightarrow> Step_fired 1 None \<in> set xs"
proof (cases event)
  case Other_event
  then show "executeWorkflow c cfg env event = xs @ Action (StartExecution arn input) # ys
     \<Longrightarrow> Step_fired 1 None \<in> set xs"
    by (auto simp: executeWorkflow_def Cons_eq_append_conv)
next
  case (Records_event records)
  let ?p = "[Step_invoked 0, Action ListStateMachines, Step_fired 0 None, Step_invoked 1,
             Step_fired 1 None, Step_invoked 2] :: trace"
  assume eq: "executeWorkflow c cfg env event = xs @ Action (StartExecution arn input) # ys"
  then have mem: "Action (StartExecution arn input) \<in> set (executeWorkflow c cfg env event)"
    by simp
  have "\<exists>rest. executeWorkflow c cfg env event = ?p @ rest"
    using mem unfolding Records_event executeWorkflow_trace
    by (auto simp: Let_def split: sum.splits option.splits list.splits if_splits)
  then obtain rest where "?p @ rest = xs @ Action (StartExecution arn input) # ys"
    using eq by auto
  from split_after_prefix [OF this] obtain us where "xs = ?p @ us" by auto
  then show "Step_fired 1 None \<in> set xs" by simp
qed

text \<open>
  Claim C2. Resolving a name scans the listing from its start and yields the ARN of the
  first descriptor whose name equals the requested name: A1 for the name X over the
  listing with X at A1 and Y at A2. When no descriptor has the name, the step raises the
  lookup failure, and executeWorkflow never calls startExecution. An execution is started
  only after the completion callback of the resolving step has fired.
\<close>

theorem resolveWorkflow_first_match:
  "(name item = n \<and> (\<forall>x \<in> set pre. name x \<noteq> n) \<longrightarrow>
      resolveWorkflow n (pre @ item # post) = Next_ok [Arn (stateMachineArn item)])
   \<and> resolveWorkflow ''X''
        [\<lparr>name = ''X'', stateMachineArn = ''A1''\<rparr>, \<lparr>name = ''Y'', stateMachineArn = ''A2''\<rparr>] =
      Next_ok [Arn ''A1'']
   \<and> ((\<forall>x \<in> set ms. name x \<noteq> n) \<longrightarrow>
        resolveWorkflow n ms =
          Throws (Thrown_string ''Step function with the given name doesn't exist''))
   \<and> (listStateMachines env = Inr ms \<and> (\<forall>x \<in> set ms. name x \<noteq> STEP_FUNCTION_NAME cfg) \<longrightarrow>
        Action (StartExecution arn input) \<notin> set (executeWorkflow c cfg env event))
   \<and> (executeWorkflow c cfg env event = xs @ Action (StartExecution arn input) # ys \<longrightarrow>
        Step_fired 1 None \<in> set xs)"
proof -
  have never: "Action (StartExecution arn input) \<notin> set (executeWorkflow c cfg env event)"
    if "listStateMachines env = Inr ms" "\<forall>x \<in> set ms. name x \<noteq> STEP_FUNCTION_NAME cfg"
  proof (cases event)
    case Other_event
    then show ?thesis by (simp add: executeWorkflow_def)
  next
    case (Records_event records)
    from that show ?thesis
      unfolding Records_event executeWorkflow_trace
      by (simp add: find_none_names)
  qed
  show ?thesis
    using resolveWorkflow_first [of item n pre post] resolveWorkflow_none [of ms n]
      never start_after_resolve [of c cfg env event xs arn input ys]
    by simp
qed

text \<open>
  A listing in which the name X occurs twice, after Y; a listing without X; and the run
  that starts an execution.
\<close>

theorem resolveWorkflow_first_match_witness:
  "resolveWorkflow ''X''
     ([\<lparr>name = ''Y'', stateMachineArn = ''A2''\<rparr>] @ \<lparr>name = ''X'', stateMachineArn = ''A1''\<rparr> #
      [\<lparr>name = ''X'', stateMachineArn = ''A3''\<rparr>]) = Next_ok [Arn ''A1'']
   \<and> resolveWorkflow ''X'' [\<lparr>name = ''Y'', stateMachineArn = ''A2''\<rparr>] =
       Throws (Thrown_string ''Step function with the given name doesn't exist'')
   \<and> Action (StartExecution ''A1'' ''{}'') \<notin> set
       (executeWorkflow False sample_config (accepting [\<lparr>name = ''Y'', stateMachineArn = ''A2''\<rparr>] [])
          (Records_event [\<lparr>s3_bucket_name = ''b'', s3_object_key = ''k.csv''\<rparr>]))
   \<and> Step_fired 1 None \<in> set
       [Step_invoked 0, Action ListStateMachines, Step_fired 0 None, Step_invoked 1,
        Step_fired 1 (None :: payload option), Step_invoked 2]"
proof -
  let ?env = "accepting sample_listing []"
  let ?ev = "Records_event [\<lparr>s3_bucket_name = ''b'', s3_object_key = ''k.csv''\<rparr>]"
  let ?xs = "[Step_invoked 0, Action ListStateMachines, Step_fired 0 None, Step_invoked 1,
        Step_fired 1 None, Step_invoked 2] :: trace"
  let ?inp = "JSON_stringify_input ''k.csv'' ''b''"
  let ?ys = "[Step_fired 2 None, Step_invoked 3, Action (Context_succeed (Str ''OK''))] :: trace"
  have run: "executeWorkflow False sample_config ?env ?ev = ?xs @ Action (StartExecution ''A1'' ?inp) # ?ys"
    by (simp add: executeWorkflow_trace accepting_def sample_listing_def sample_config_def Let_def)
  have ordered: "Step_fired 1 None \<in> set ?xs"
    using resolveWorkflow_first_match
            [where arn = "''A1''" and input = ?inp and c = False and cfg = sample_config
               and env = ?env and event = ?ev and xs = ?xs and ys = ?ys] run
    by blast
  have listed: "listStateMachines (accepting [\<lparr>name = ''Y'', stateMachineArn = ''A2''\<rparr>] []) =
      Inr [\<lparr>name = ''Y'', stateMachineArn = ''A2''\<rparr>]"
    by (simp add: accepting_def)
  have absent: "\<forall>x \<in> set [\<lparr>name = ''Y'', stateMachineArn = ''A2''\<rparr>]. name x \<noteq> STEP_FUNCTION_NAME sample_config"
    by (simp add: sample_config_def)
  have absent': "\<forall>x \<in> set [\<lparr>name = ''Y'', stateMachineArn = ''A2''\<rparr>]. name x \<noteq> ''X''"
    by simp
  have first: "resolveWorkflow ''X''
     ([\<lparr>name = ''Y'', stateMachineArn = ''A2''\<rparr>] @ \<lparr>name = ''X'', stateMachineArn = ''A1''\<rparr> #
      [\<lparr>name = ''X'', stateMachineArn = ''A3''\<rparr>]) = Next_ok [Arn ''A1'']"
    using resolveWorkflow_first_match
            [where item = "\<lparr>name = ''X'', stateMachineArn = ''A1''\<rparr>" and n = "''X''"
               and pre = "[\<lparr>name = ''Y'', stateMachineArn = ''A2''\<rparr>]"
               and post = "[\<lparr>name = ''X'', stateMachineArn = ''A3''\<rparr>]"]
    by simp
  have none: "resolveWorkflow ''X'' [\<lparr>name = ''Y'', stateMachineArn = ''A2''\<rparr>] =
       Throws (Thrown_string ''Step function with the given name doesn't exist'')"
    using resolveWorkflow_first_match
            [where n = "''X''" and ms = "[\<lparr>name = ''Y'', stateMachineArn = ''A2''\<rparr>]"]
      absent'
    by blast
  have never: "Action (StartExecution ''A1'' ''{}'') \<notin> set
       (executeWorkflow False sample_config (accepting [\<lparr>name = ''Y'', stateMachineArn = ''A2''\<rparr>] []) ?ev)"
    using resolveWorkflow_first_match
            [where ms = "[\<lparr>name = ''Y'', stateMachineArn = ''A2''\<rparr>]"
               and env = "accepting [\<lparr>name = ''Y'', stateMachineArn = ''A2''\<rparr>] []"
               and cfg = sample_config and arn = "''A1''" and input = "''{}''" and c = False
               and event = ?ev]
      listed absent
    by blast
  from first none never ordered show ?thesis by blast
qed

lemma json_escape_plain:
  "c \<noteq> CHR 0x22 \<Longrightarrow> c \<noteq> CHR 0x5C \<Longrightarrow> (32::nat) \<le> of_char c \<Longrightarrow> json_escape c = [c]"
  by (auto simp: json_escape_def)

lemma json_string_plain:
  "\<forall>c \<in> set s. c \<noteq> CHR 0x22 \<and> c \<noteq> CHR 0x5C \<and> (32::nat) \<le> of_char c
     \<Longrightarrow> json_string s = CHR 0x22 # s @ [CHR 0x22]"
proof -
  assume plain: "\<forall>c \<in> set s. c \<noteq> CHR 0x22 \<and> c \<noteq> CHR 0x5C \<and> (32::nat) \<le> of_char c"
  then have "concat (map json_escape s) = s"
    by (induction s) (simp_all add: json_escape_plain)
  then show ?thesis by (simp add: json_string_def)
qed

lemma json_string_objectKey: \<open>json_string ''objectKey'' = ''"objectKey"''\<close>
  by (simp add: json_string_def json_escape_def)

lemma json_string_bucketName: \<open>json_string ''bucketName'' = ''"bucketName"''\<close>
  by (simp add: json_string_def json_escape_def)

lemma json_string_append:
  "json_string (s @ t) = butlast (json_string s) @ tl (json_string t)"
  by (simp add: json_string_def butlast_append)

lemma json_string_specials:
  "(let q = [CHR 0x22]; bs = [CHR 0x5C] in
        map (\<lambda>ch. json_string [ch])
          [CHR 0x00, CHR 0x01, CHR 0x02, CHR 0x03, CHR 0x04, CHR 0x05, CHR 0x06, CHR 0x07,
           CHR 0x08, CHR 0x09, CHR 0x0A, CHR 0x0B, CHR 0x0C, CHR 0x0D, CHR 0x0E, CHR 0x0F,
           CHR 0x10, CHR 0x11, CHR 0x12, CHR 0x13, CHR 0x14, CHR 0x15, CHR 0x16, CHR 0x17,
           CHR 0x18, CHR 0x19, CHR 0x1A, CHR 0x1B, CHR 0x1C, CHR 0x1D, CHR 0x1E, CHR 0x1F,
           CHR 0x22, CHR 0x5C] =
          [q @ bs @ ''u0000'' @ q, q @ bs @ ''u0001'' @ q, q @ bs @ ''u0002'' @ q,
           q @ bs @ ''u0003'' @ q, q @ bs @ ''u0004'' @ q, q @ bs @ ''u0005'' @ q,
           q @ bs @ ''u0006'' @ q, q @ bs @ ''u0007'' @ q, q @ bs @ ''b'' @ q,
           q @ bs @ ''t'' @ q, q @ bs @ ''n'' @ q, q @ bs @ ''u000b'' @ q,
           q @ bs @ ''f'' @ q, q @ bs @ ''r'' @ q, q @ bs @ ''u000e'' @ q,
           q @ bs @ ''u000f'' @ q, q @ bs @ ''u0010'' @ q, q @ bs @ ''u0011'' @ q,
           q @ bs @ ''u0012'' @ q, q @ bs @ ''u0013'' @ q, q @ bs @ ''u0014'' @ q,
           q @ bs @ ''u0015'' @ q, q @ bs @ ''u0016'' @ q, q @ bs @ ''u0017'' @ q,
           q @ bs @ ''u0018'' @ q, q @ bs @ ''u0019'' @ q, q @ bs @ ''u001a'' @ q,
           q @ bs @ ''u001b'' @ q, q @ bs @ ''u001c'' @ q, q @ bs @ ''u001d'' @ q,
           q @ bs @ ''u001e'' @ q, q @ bs @ ''u001f'' @ q, q @ bs @ q @ q, q @ bs @ bs @ q])"
  by (simp add: json_string_def json_escape_def hex_lower_def)

text \<open>
  Claim C6. On a Records event executeWorkflow reads the first record only: the records
  after it change nothing. Every execution it starts has as input the object with the
  members objectKey and bucketName, in this order, holding the first record's object key
  and bucket name as JSON strings, and such an execution is started whenever the workflow
  name resolves. For a key and a bucket name without quotation marks, backslashes and
  control characters the input is the text {"objectKey":"<key>","bucketName":"<bucket>"};
  for bucket b and key k.csv it is {"objectKey":"k.csv","bucketName":"b"}. The JSON
  string of any text is fixed character by character: the strings of two texts join to
  the string of the joined text, a character other than the quotation mark, the backslash
  and the control characters stands for itself, and each of these 34 characters has the
  escape that \<^verbatim>\<open>JSON.stringify\<close> writes for it.
\<close>

theorem executeWorkflow_first_record_input:
  \<open>executeWorkflow c cfg env (Records_event (r # rest)) =
     executeWorkflow c cfg env (Records_event [r])
   \<and> (Action (StartExecution arn input) \<in> set (executeWorkflow c cfg env (Records_event (r # rest)))
        \<longrightarrow> input = ''{"objectKey":'' @ json_string (s3_object_key r) @
                     '',"bucketName":'' @ json_string (s3_bucket_name r) @ ''}'')
   \<and> (listStateMachines env = Inr ms \<and>
       resolveWorkflow (STEP_FUNCTION_NAME cfg) ms = Next_ok [Arn arn] \<longrightarrow>
        Action (StartExecution arn
          (''{"objectKey":'' @ json_string (s3_object_key r) @
           '',"bucketName":'' @ json_string (s3_bucket_name r) @ ''}''))
          \<in> set (executeWorkflow c cfg env (Records_event (r # rest))))
   \<and> ((\<forall>ch \<in> set (s3_object_key r) \<union> set (s3_bucket_name r).
          ch \<noteq> CHR 0x22 \<and> ch \<noteq> CHR 0x5C \<and> (32::nat) \<le> of_char ch) \<longrightarrow>
        ''{"objectKey":'' @ json_string (s3_object_key r) @
          '',"bucketName":'' @ json_string (s3_bucket_name r) @ ''}'' =
        ''{"objectKey":"'' @ s3_object_key r @ ''","bucketName":"'' @ s3_bucket_name r @ ''"}'')
   \<and> ''{"objectKey":'' @ json_string ''k.csv'' @ '',"bucketName":'' @ json_string ''b'' @ ''}'' =
       ''{"objectKey":"k.csv","bucketName":"b"}''
   \<and> json_string (s @ t) = butlast (json_string s) @ tl (json_string t)
   \<and> ((\<forall>ch \<in> set s. ch \<noteq> CHR 0x22 \<and> ch \<noteq> CHR 0x5C \<and> (32::nat) \<le> of_char ch) \<longrightarrow>
        json_string s = [CHR 0x22] @ s @ [CHR 0x22])
   \<and> (let q = [CHR 0x22]; bs = [CHR 0x5C] in
        map (\<lambda>ch. json_string [ch])
          [CHR 0x00, CHR 0x01, CHR 0x02, CHR 0x03, CHR 0x04, CHR 0x05, CHR 0x06, CHR 0x07,
           CHR 0x08, CHR 0x09, CHR 0x0A, CHR 0x0B, CHR 0x0C, CHR 0x0D, CHR 0x0E, CHR 0x0F,
           CHR 0x10, CHR 0x11, CHR 0x12, CHR 0x13, CHR 0x14, CHR 0x15, CHR 0x16, CHR 0x17,
           CHR 0x18, CHR 0x19, CHR 0x1A, CHR 0x1B, CHR 0x1C, CHR 0x1D, CHR 0x1E, CHR 0x1F,
           CHR 0x22, CHR 0x5C] =
          [q @ bs @ ''u0000'' @ q, q @ bs @ ''u0001'' @ q, q @ bs @ ''u0002'' @ q,
           q @ bs @ ''u0003'' @ q, q @ bs @ ''u0004'' @ q, q @ bs @ ''u0005'' @ q,
           q @ bs @ ''u0006'' @ q, q @ bs @ ''u0007'' @ q, q @ bs @ ''b'' @ q,
           q @ bs @ ''t'' @ q, q @ bs @ ''n'' @ q, q @ bs @ ''u000b'' @ q,
           q @ bs @ ''f'' @ q, q @ bs @ ''r'' @ q, q @ bs @ ''u000e'' @ q,
           q @ bs @ ''u000f'' @ q, q @ bs @ ''u0010'' @ q, q @ bs @ ''u0011'' @ q,
           q @ bs @ ''u0012'' @ q, q @ bs @ ''u0013'' @ q, q @ bs @ ''u0014'' @ q,
           q @ bs @ ''u0015'' @ q, q @ bs @ ''u0016'' @ q, q @ bs @ ''u0017'' @ q,
           q @ bs @ ''u0018'' @ q, q @ bs @ ''u0019'' @ q, q @ bs @ ''u001a'' @ q,
           q @ bs @ ''u001b'' @ q, q @ bs @ ''u001c'' @ q, q @ bs @ ''u001d'' @ q,
           q @ bs @ ''u001e'' @ q, q @ bs @ ''u001f'' @ q, q @ bs @ q @ q, q @ bs @ bs @ q])\<close>
proof -
  let ?input = \<open>''{"objectKey":'' @ json_string (s3_object_key r) @
                     '',"bucketName":'' @ json_string (s3_bucket_name r) @ ''}''\<close>
  have ser: "JSON_stringify_input key bucket =
      ''{'' @ json_string ''objectKey'' @ '':'' @ json_string key @ '','' @
      json_string ''bucketName'' @ '':'' @ json_string bucket @ ''}''" for key bucket
    by (simp add: JSON_stringify_input_def)
  have input: "JSON_stringify_input (s3_object_key r) (s3_bucket_name r) = ?input"
    by (simp add: ser json_string_objectKey json_string_bucketName)
  have same: "executeWorkflow c cfg env (Records_event (r # rest)) =
     executeWorkflow c cfg env (Records_event [r])"
    by (simp add: executeWorkflow_trace split: sum.split option.split)
  have only: "input = ?input"
    if "Action (StartExecution arn input) \<in> set (executeWorkflow c cfg env (Records_event (r # rest)))"
    using that unfolding executeWorkflow_trace input [symmetric]
    by (auto simp: Let_def split: sum.splits option.splits if_splits)
  have started: "Action (StartExecution arn ?input)
          \<in> set (executeWorkflow c cfg env (Records_event (r # rest)))"
    if "listStateMachines env = Inr ms" "resolveWorkflow (STEP_FUNCTION_NAME cfg) ms = Next_ok [Arn arn]"
    using that unfolding executeWorkflow_trace input [symmetric]
    by (auto simp: resolveWorkflow_find Let_def split: option.splits)
  have plain: \<open>?input =
        ''{"objectKey":"'' @ s3_object_key r @ ''","bucketName":"'' @ s3_bucket_name r @ ''"}''\<close>
    if "\<forall>ch \<in> set (s3_object_key r) \<union> set (s3_bucket_name r).
          ch \<noteq> CHR 0x22 \<and> ch \<noteq> CHR 0x5C \<and> (32::nat) \<le> of_char ch"
  proof -
    from that have "json_string (s3_object_key r) = CHR 0x22 # s3_object_key r @ [CHR 0x22]"
      and "json_string (s3_bucket_name r) = CHR 0x22 # s3_bucket_name r @ [CHR 0x22]"
      by (simp_all add: json_string_plain)
    then show ?thesis by simp
  qed
  have example: \<open>''{"objectKey":'' @ json_string ''k.csv'' @ '',"bucketName":'' @ json_string ''b'' @ ''}'' =
       ''{"objectKey":"k.csv","bucketName":"b"}''\<close>
    by (simp add: json_string_def json_escape_def)
  have verbatim: "json_string s = [CHR 0x22] @ s @ [CHR 0x22]"
    if "\<forall>ch \<in> set s. ch \<noteq> CHR 0x22 \<and> ch \<noteq> CHR 0x5C \<and> (32::nat) \<le> of_char ch"
    using that by (simp add: json_string_plain)
  show ?thesis
    by (intro conjI impI same only started plain example verbatim json_string_append
          json_string_specials) (assumption | simp)+
qed

text \<open>
  An event of two records: the execution is started on the first record's key and bucket.
  And an event whose key holds a quotation mark, a backslash, a line feed and the control
  character 1: each of them is escaped in the input.
\<close>

theorem executeWorkflow_first_record_input_witness:
  \<open>executeWorkflow False sample_config (accepting sample_listing [])
      (Records_event [\<lparr>s3_bucket_name = ''b'', s3_object_key = ''k.csv''\<rparr>,
                      \<lparr>s3_bucket_name = ''other'', s3_object_key = ''ignored.csv''\<rparr>]) =
     [Step_invoked 0, Action ListStateMachines, Step_fired 0 None, Step_invoked 1,
      Step_fired 1 None, Step_invoked 2,
      Action (StartExecution ''A1'' ''{"objectKey":"k.csv","bucketName":"b"}''),
      Step_fired 2 None, Step_invoked 3, Action (Context_succeed (Str ''OK''))]
   \<and> Action (StartExecution ''A1'' ''{"objectKey":"k.csv","bucketName":"b"}'') \<in> set
       (executeWorkflow False sample_config (accepting sample_listing [])
         (Records_event [\<lparr>s3_bucket_name = ''b'', s3_object_key = ''k.csv''\<rparr>,
                         \<lparr>s3_bucket_name = ''other'', s3_object_key = ''ignored.csv''\<rparr>]))
   \<and> Action (StartExecution ''A1''
         (''{"objectKey":"a'' @ [CHR 0x5C] @ ''"b'' @ [CHR 0x5C, CHR 0x5C] @ ''c'' @ [CHR 0x5C] @
          ''n'' @ [CHR 0x5C] @ ''u0001","bucketName":"b"}'')) \<in> set
       (executeWorkflow False sample_config (accepting sample_listing [])
         (Records_event
            [\<lparr>s3_bucket_name = ''b'',
              s3_object_key = ''a"b'' @ [CHR 0x5C] @ ''c'' @ [CHR 0x0A, CHR 0x01]\<rparr>]))\<close>
proof -
  let ?env = "accepting sample_listing []"
  let ?r = "\<lparr>s3_bucket_name = ''b'', s3_object_key = ''k.csv''\<rparr>"
  let ?rest = "[\<lparr>s3_bucket_name = ''other'', s3_object_key = ''ignored.csv''\<rparr>]"
  let ?odd = \<open>\<lparr>s3_bucket_name = ''b'',
              s3_object_key = ''a"b'' @ [CHR 0x5C] @ ''c'' @ [CHR 0x0A, CHR 0x01]\<rparr>\<close>
  note inst = executeWorkflow_first_record_input
      [where c = False and cfg = sample_config and env = ?env and r = ?r and rest = ?rest
         and ms = sample_listing and arn = "''A1''"]
  note odd = executeWorkflow_first_record_input
      [where c = False and cfg = sample_config and env = ?env and r = ?odd and rest = "[]"
         and ms = sample_listing and arn = "''A1''"]
  have listed: "listStateMachines ?env = Inr sample_listing"
    by (simp add: accepting_def)
  have resolved: "resolveWorkflow (STEP_FUNCTION_NAME sample_config) sample_listing = Next_ok [Arn ''A1'']"
    by (simp add: sample_config_def sample_listing_def)
  have plain: "\<forall>ch \<in> set (s3_object_key ?r) \<union> set (s3_bucket_name ?r).
          ch \<noteq> CHR 0x22 \<and> ch \<noteq> CHR 0x5C \<and> (32::nat) \<le> of_char ch"
    by simp
  from inst have same: "executeWorkflow False sample_config ?env (Records_event (?r # ?rest)) =
      executeWorkflow False sample_config ?env (Records_event [?r])"
    by blast
  have single: \<open>executeWorkflow False sample_config ?env (Records_event [?r]) =
     [Step_invoked 0, Action ListStateMachines, Step_fired 0 None, Step_invoked 1,
      Step_fired 1 None, Step_invoked 2,
      Action (StartExecution ''A1'' ''{"objectKey":"k.csv","bucketName":"b"}''),
      Step_fired 2 None, Step_invoked 3, Action (Context_succeed (Str ''OK''))]\<close>
    by (simp add: executeWorkflow_trace accepting_def sample_listing_def sample_config_def Let_def
          JSON_stringify_input_def json_string_def json_escape_def)
  from inst listed resolved
  have member: \<open>Action (StartExecution ''A1''
          (''{"objectKey":'' @ json_string (s3_object_key ?r) @
           '',"bucketName":'' @ json_string (s3_bucket_name ?r) @ ''}''))
          \<in> set (executeWorkflow False sample_config ?env (Records_event (?r # ?rest)))\<close>
    by blast
  from inst plain
  have quoted: \<open>''{"objectKey":'' @ json_string (s3_object_key ?r) @
          '',"bucketName":'' @ json_string (s3_bucket_name ?r) @ ''}'' =
        ''{"objectKey":"'' @ s3_object_key ?r @ ''","bucketName":"'' @ s3_bucket_name ?r @ ''"}''\<close>
    by blast
  have lit: \<open>''{"objectKey":"'' @ s3_object_key ?r @ ''","bucketName":"'' @ s3_bucket_name ?r @ ''"}'' =
      ''{"objectKey":"k.csv","bucketName":"b"}''\<close>
    by simp
  from member
  have started: \<open>Action (StartExecution ''A1'' ''{"objectKey":"k.csv","bucketName":"b"}'')
          \<in> set (executeWorkflow False sample_config ?env (Records_event (?r # ?rest)))\<close>
    unfolding quoted lit .
  from odd listed resolved
  have odd_member: \<open>Action (StartExecution ''A1''
          (''{"objectKey":'' @ json_string (s3_object_key ?odd) @
           '',"bucketName":'' @ json_string (s3_bucket_name ?odd) @ ''}''))
          \<in> set (executeWorkflow False sample_config ?env (Records_event (?odd # [])))\<close>
    by blast
  have odd_lit: \<open>''{"objectKey":'' @ json_string (s3_object_key ?odd) @
           '',"bucketName":'' @ json_string (s3_bucket_name ?odd) @ ''}'' =
         ''{"objectKey":"a'' @ [CHR 0x5C] @ ''"b'' @ [CHR 0x5C, CHR 0x5C] @ ''c'' @ [CHR 0x5C] @
          ''n'' @ [CHR 0x5C] @ ''u0001","bucketName":"b"}''\<close>
    by (simp add: json_string_def json_escape_def hex_lower_def)
  from odd_member
  have odd_started: \<open>Action (StartExecution ''A1''
         (''{"objectKey":"a'' @ [CHR 0x5C] @ ''"b'' @ [CHR 0x5C, CHR 0x5C] @ ''c'' @ [CHR 0x5C] @
          ''n'' @ [CHR 0x5C] @ ''u0001","bucketName":"b"}'')) \<in> set
       (executeWorkflow False sample_config ?env (Records_event [?odd]))\<close>
    unfolding odd_lit .
  from same single started odd_started show ?thesis by (simp only: simp_thms)
qed

section \<open>Terminal signals of the handlers\<close>

lemma terminal_signals_sendEmail:
  "length (terminal_signals (sendEmail c cfg env event)) = 1"
  by (simp add: sendEmail_trace terminal_signals_def split: option.split)

lemma terminal_signals_moveFile:
  "length (terminal_signals (moveFile c cfg env event)) = 1"
  by (simp add: moveFile_trace terminal_signals_def Let_def split: option.split)

lemma no_terminal_in_rows:
  "filter is_terminal (map (\<lambda>data. Action (on_data data)) rows) = []"
  by (induction rows) (simp_all add: on_data_def)

lemma terminal_signals_processFile:
  "length (terminal_signals (processFile c decode env event)) = 1"
  by (simp add: processFile_trace terminal_signals_def Let_def no_terminal_in_rows
        split: option.split)

lemma terminal_signals_executeWorkflow:
  "terminal_signals (executeWorkflow c cfg env (Records_event records)) =
     (case listStateMachines env of
        Inl err \<Rightarrow> []
      | Inr ms \<Rightarrow>
          (case find (\<lambda>item. name item = STEP_FUNCTION_NAME cfg) ms of
             None \<Rightarrow> []
           | Some item \<Rightarrow>
               (case records of
                  [] \<Rightarrow> []
                | eventData # _ \<Rightarrow>
                    (case startExecution env (stateMachineArn item)
                            (JSON_stringify_input (s3_object_key eventData)
                               (s3_bucket_name eventData)) of
                       Some e \<Rightarrow> []
                     | None \<Rightarrow> [Action (Context_succeed (Str ''OK''))]))))"
  by (simp add: executeWorkflow_trace terminal_signals_def Let_def
        split: sum.split option.split list.split)

lemma terminal_signals_executeWorkflow_other:
  "length (terminal_signals (executeWorkflow c cfg env Other_event)) = 1"
  by (simp add: executeWorkflow_def terminal_signals_def)

text \<open>
  Claim C4 asks that a failure of any step, also the bare string raised during the name
  lookup, reaches the terminal failure path. executeWorkflow on a listing that lacks the
  configured name: the second step raises, and neither \<^verbatim>\<open>context.fail\<close> nor
  \<^verbatim>\<open>context.succeed\<close> is called, whether or not the executor turns the raised string
  into an error for the final callback, because executeWorkflow passes no final callback.
\<close>

theorem executeWorkflow_thrown_lookup_failure_unrouted:
  "executeWorkflow False sample_config (accepting [\<lparr>name = ''Y'', stateMachineArn = ''A2''\<rparr>] [])
     (Records_event [\<lparr>s3_bucket_name = ''b'', s3_object_key = ''k.csv''\<rparr>]) =
     [Step_invoked 0, Action ListStateMachines, Step_fired 0 None, Step_invoked 1,
      Step_threw 1 (Thrown_string ''Step function with the given name doesn't exist'')]
   \<and> executeWorkflow True sample_config (accepting [\<lparr>name = ''Y'', stateMachineArn = ''A2''\<rparr>] [])
     (Records_event [\<lparr>s3_bucket_name = ''b'', s3_object_key = ''k.csv''\<rparr>]) =
     [Step_invoked 0, Action ListStateMachines, Step_fired 0 None, Step_invoked 1,
      Step_threw 1 (Thrown_string ''Step function with the given name doesn't exist''),
      Chain_callback (Some (Thrown_string ''Step function with the given name doesn't exist''))]
   \<and> terminal_signals
       (executeWorkflow False sample_config (accepting [\<lparr>name = ''Y'', stateMachineArn = ''A2''\<rparr>] [])
          (Records_event [\<lparr>s3_bucket_name = ''b'', s3_object_key = ''k.csv''\<rparr>])) = []
   \<and> terminal_signals
       (executeWorkflow True sample_config (accepting [\<lparr>name = ''Y'', stateMachineArn = ''A2''\<rparr>] [])
          (Records_event [\<lparr>s3_bucket_name = ''b'', s3_object_key = ''k.csv''\<rparr>])) = []"
  by (simp add: executeWorkflow_trace terminal_signals_def accepting_def sample_config_def)

text \<open>
  Claim C5 asks for exactly one terminal signal in every invocation. executeWorkflow when
  the workflow engine answers the listing with an error: the error reaches the chain's
  final callback, which executeWorkflow did not supply, and the number of terminal signals
  is zero. The other three handlers supply a final callback and signal exactly once
  (lemmas \<open>terminal_signals_processFile\<close>, \<open>terminal_signals_moveFile\<close> and
  \<open>terminal_signals_sendEmail\<close>).
\<close>

theorem executeWorkflow_listing_error_unsignalled:
  "executeWorkflow False sample_config
     ((accepting sample_listing [])\<lparr>listStateMachines := Inl (Service_error ''AccessDenied'')\<rparr>)
     (Records_event [\<lparr>s3_bucket_name = ''b'', s3_object_key = ''k.csv''\<rparr>]) =
     [Step_invoked 0, Action ListStateMachines,
      Step_fired 0 (Some (Service_error ''AccessDenied'')),
      Chain_callback (Some (Service_error ''AccessDenied''))]
   \<and> length (terminal_signals
       (executeWorkflow False sample_config
          ((accepting sample_listing [])\<lparr>listStateMachines := Inl (Service_error ''AccessDenied'')\<rparr>)
          (Records_event [\<lparr>s3_bucket_name = ''b'', s3_object_key = ''k.csv''\<rparr>]))) = 0
   \<and> length (terminal_signals
       (executeWorkflow True sample_config
          ((accepting sample_listing [])\<lparr>listStateMachines := Inl (Service_error ''AccessDenied'')\<rparr>)
          (Records_event [\<lparr>s3_bucket_name = ''b'', s3_object_key = ''k.csv''\<rparr>]))) = 0"
  by (simp add: executeWorkflow_trace terminal_signals_def accepting_def)

end
